theory Spec2Isabelle
  imports
    Main
    "HOL-Library.Char_ord"
    "HOL-Library.List_Lexorder"
    "HOL-Library.Sublist"
    "HOL-Library.AList"
begin

section \<open>Python string primitives used by patches.py\<close>

text \<open>
  Tags, package names and lines are Python 2 byte strings, modelled as \<open>string\<close>.
  Strings are ordered bytewise and lexicographically, as Python's \<open>sorted\<close> orders
  them (\<open>Char_ord\<close> and \<open>List_Lexorder\<close>).
\<close>

text \<open>The characters removed by \<open>str.strip()\<close> without argument.\<close>

definition is_space :: "char \<Rightarrow> bool" where
  "is_space c \<longleftrightarrow> c \<in> {CHR '' '', CHR 0x09, CHR 0x0A, CHR 0x0B, CHR 0x0C, CHR 0x0D}"

definition strip :: "string \<Rightarrow> string" where
  "strip s = rev (dropWhile is_space (rev (dropWhile is_space s)))"

text \<open>
  \<open>text.split(sep)\<close> for a non-empty separator: the text is scanned from the left, every
  occurrence of the separator closes the current piece, the scan resumes behind it.
  The second argument accumulates the current piece, reversed. The source only splits
  on the constants \<open>", "\<close> and \<open>": "\<close>.
\<close>

function split_str :: "string \<Rightarrow> string \<Rightarrow> string \<Rightarrow> string list" where
  "split_str sep acc [] = [rev acc]"
| "split_str sep acc (c # cs) =
     (if sep \<noteq> [] \<and> prefix sep (c # cs)
      then rev acc # split_str sep [] (drop (length sep) (c # cs))
      else split_str sep (c # acc) cs)"
  by pat_completeness auto
termination
  by (relation "measure (\<lambda>(sep, acc, s). length s)") auto

definition split :: "string \<Rightarrow> string \<Rightarrow> string list" where
  "split text sep = split_str sep [] text"

text \<open>
  \<open>pkg, tags = line.split(": ", 1)\<close>: the line is cut at the first occurrence of the
  separator; without an occurrence the unpacking raises, which is \<open>None\<close> here.
\<close>

fun split_once :: "string \<Rightarrow> string \<Rightarrow> string \<Rightarrow> (string \<times> string) option" where
  "split_once sep acc [] = None"
| "split_once sep acc (c # cs) =
     (if prefix sep (c # cs)
      then Some (rev acc, drop (length sep) (c # cs))
      else split_once sep (c # acc) cs)"

definition split1 :: "string \<Rightarrow> string \<Rightarrow> (string \<times> string) option" where
  "split1 line sep = split_once sep [] line"

text \<open>\<open>sep.join(bits)\<close>.\<close>

fun join :: "string \<Rightarrow> string list \<Rightarrow> string" where
  "join sep [] = []"
| "join sep [b] = b"
| "join sep (b # c # bs) = b @ sep @ join sep (c # bs)"

text \<open>
  \<open>re.match(r"^[^: ,]+:?$", line)\<close>: one or more characters other than colon, space and
  comma, then an optional colon, then the end of the string; Python's \<open>$\<close> also matches
  in front of a newline that ends the string.
\<close>

definition re_name_char :: "char \<Rightarrow> bool" where
  "re_name_char c \<longleftrightarrow> c \<notin> {CHR '':'', CHR '' '', CHR '',''}"

definition re_bare_to_end :: "string \<Rightarrow> bool" where
  "re_bare_to_end s \<longleftrightarrow>
     (let body = (if s \<noteq> [] \<and> last s = CHR '':'' then butlast s else s)
      in body \<noteq> [] \<and> list_all re_name_char body)"

definition re_match_bare :: "string \<Rightarrow> bool" where
  "re_match_bare s \<longleftrightarrow>
     re_bare_to_end s \<or> (s \<noteq> [] \<and> last s = CHR 0x0A \<and> re_bare_to_end (butlast s))"

section \<open>Errors\<close>

text \<open>
  The exceptions that leave the modelled functions: the \<open>ValueError\<close> that
  \<open>PatchSet.read_fd\<close> raises with its message, the \<open>IndexError\<close> of \<open>t[0]\<close> on an
  empty string in \<open>Patch.parse\<close>, and the \<open>AttributeError\<close> of \<open>.add\<close> on a
  \<open>frozenset\<close>, which has no such method.
\<close>

datatype error = ValueError string | IndexError | AttributeError

section \<open>Patch\<close>

record Patch =
  added :: "string set"
  removed :: "string set"

text \<open>\<open>Patch()\<close> without text.\<close>

definition Patch_init :: Patch where
  "Patch_init = \<lparr>added = {}, removed = {}\<rparr>"

definition Patch_empty :: "Patch \<Rightarrow> bool" where
  "Patch_empty p \<longleftrightarrow> \<not> (added p \<noteq> {} \<or> removed p \<noteq> {})"

text \<open>
  One round of the loop of \<open>Patch.parse\<close>, on the values of a patch whose two sets are
  different \<open>set\<close> objects, as \<open>Patch()\<close> creates them. On a patch that holds a
  \<open>frozenset\<close> (\<open>PatchSet.add\<close> stores one by default) the source raises
  \<open>AttributeError\<close>: \<open>parse_token_obj\<close>, in the section on set objects, is the same
  round on objects, and lemma \<open>Patch_obj_parse_values\<close> relates the two.
  The blacklist is a Python list of tags. The test against the blacklist comes first,
  so an empty token only raises when the empty tag is not blacklisted. (\<open>tag is None\<close>
  never holds for a slice.)
\<close>

definition parse_token :: "string list \<Rightarrow> Patch \<Rightarrow> string \<Rightarrow> error + Patch" where
  "parse_token blacklist_tags p t =
     (let tag = drop 1 t in
      if tag \<in> set blacklist_tags then Inr p
      else (case t of
              [] \<Rightarrow> Inl IndexError
            | c # _ \<Rightarrow>
                if c = CHR ''+'' then Inr (p\<lparr>added := insert tag (added p)\<rparr>)
                else if c = CHR ''-'' then Inr (p\<lparr>removed := insert tag (removed p)\<rparr>)
                else Inr p))"

fun parse_tokens :: "string list \<Rightarrow> Patch \<Rightarrow> string list \<Rightarrow> error + Patch" where
  "parse_tokens blacklist_tags p [] = Inr p"
| "parse_tokens blacklist_tags p (t # ts) =
     (case parse_token blacklist_tags p t of
        Inl e \<Rightarrow> Inl e
      | Inr p' \<Rightarrow> parse_tokens blacklist_tags p' ts)"

definition Patch_parse :: "string list \<Rightarrow> Patch \<Rightarrow> string \<Rightarrow> error + Patch" where
  "Patch_parse blacklist_tags p text = parse_tokens blacklist_tags p (split text '', '')"

text \<open>\<open>Patch(text, blacklist_tags)\<close>.\<close>

definition Patch_new :: "string list \<Rightarrow> string \<Rightarrow> error + Patch" where
  "Patch_new blacklist_tags text = Patch_parse blacklist_tags Patch_init text"

text \<open>\<open>Patch.write\<close> appends to the contents of the stream; \<open>Patch.__str__\<close> returns a string.\<close>

definition Patch_write :: "Patch \<Rightarrow> string \<Rightarrow> string" where
  "Patch_write p fd =
     (let bits = map (\<lambda>t. CHR ''-'' # t) (sorted_list_of_set (removed p));
          bits = bits @ map (\<lambda>t. CHR ''+'' # t) (sorted_list_of_set (added p))
      in fd @ join '', '' bits)"

definition Patch_str :: "Patch \<Rightarrow> string" where
  "Patch_str p =
     join '', '' (map (\<lambda>t. CHR ''+'' # t) (sorted_list_of_set (added p)) @
                  map (\<lambda>t. CHR ''-'' # t) (sorted_list_of_set (removed p)))"

text \<open>\<open>Patch.add\<close>: the four in-place set updates, in the order of the source.\<close>

definition Patch_add :: "Patch \<Rightarrow> string set \<Rightarrow> string set \<Rightarrow> Patch" where
  "Patch_add p add_set removed_set =
     (let a1 = added p \<union> add_set;
          r1 = removed p - add_set;
          r2 = r1 \<union> removed_set;
          a2 = a1 - removed_set
      in \<lparr>added = a2, removed = r2\<rparr>)"

text \<open>
  \<open>Patch.simplified\<close>: \<open>None\<close> when nothing applies. A whitelist that is \<open>None\<close> or an
  empty set is false in \<open>if tag_whitelist\<close> and does not filter.
\<close>

definition truthy :: "string set option \<Rightarrow> bool" where
  "truthy w \<longleftrightarrow> (case w of None \<Rightarrow> False | Some s \<Rightarrow> s \<noteq> {})"

definition Patch_simplified :: "Patch \<Rightarrow> string set \<Rightarrow> string set option \<Rightarrow> Patch option" where
  "Patch_simplified p tags tag_whitelist =
     (let new_add = added p - tags;
          new_del = removed p \<inter> tags;
          new_add = (if truthy tag_whitelist then new_add \<inter> the tag_whitelist else new_add);
          new_del = (if truthy tag_whitelist then new_del \<inter> the tag_whitelist else new_del)
      in if new_add = {} \<and> new_del = {} then None
         else if new_add = added p \<and> new_del = removed p then Some p
         else Some \<lparr>added = new_add, removed = new_del\<rparr>)"

definition Patch_diff :: "Patch \<Rightarrow> Patch \<Rightarrow> Patch" where
  "Patch_diff p patch =
     (let a = removed p - removed patch;
          a = a \<union> (added patch - added p);
          r = added p - added patch;
          r = r \<union> (removed patch - removed p)
      in \<lparr>added = a, removed = r\<rparr>)"

section \<open>The tag database\<close>

text \<open>
  Modelled from the spec: the class \<open>debtags.DB\<close> (imported from python-debian) is not
  under src/. The spec describes the tag database as a mapping from package names to
  tag sets with a derived reverse mapping from tags to sets of package names; these
  are the dictionaries \<open>db\<close> and \<open>rdb\<close> that \<open>Patch.apply\<close> updates.
\<close>

record tagdb =
  db :: "string \<rightharpoonup> string set"
  rdb :: "string \<rightharpoonup> string set"

text \<open>
  Modelled from the spec: the two point queries of \<open>debtags.DB\<close> that
  \<open>PatchSet.simplified\<close> calls, whether a package exists in the database and the live
  tags of a package (no tags for a package that does not exist).
\<close>

definition has_package :: "tagdb \<Rightarrow> string \<Rightarrow> bool" where
  "has_package tdb pkg \<longleftrightarrow> pkg \<in> dom (db tdb)"

definition tags_of_package :: "tagdb \<Rightarrow> string \<Rightarrow> string set" where
  "tags_of_package tdb pkg = (case db tdb pkg of None \<Rightarrow> {} | Some ts \<Rightarrow> ts)"

text \<open>The value that \<open>d.setdefault(k, set())\<close> returns.\<close>

definition setdefault :: "(string \<rightharpoonup> string set) \<Rightarrow> string \<Rightarrow> string set" where
  "setdefault d k = (case d k of None \<Rightarrow> {} | Some s \<Rightarrow> s)"

definition rdb_discard :: "string \<Rightarrow> string \<Rightarrow> (string \<rightharpoonup> string set) \<Rightarrow> (string \<rightharpoonup> string set)" where
  "rdb_discard pkg t d = d(t \<mapsto> setdefault d t - {pkg})"

definition rdb_add :: "string \<Rightarrow> string \<Rightarrow> (string \<rightharpoonup> string set) \<Rightarrow> (string \<rightharpoonup> string set)" where
  "rdb_add pkg t d = d(t \<mapsto> insert pkg (setdefault d t))"

text \<open>
  \<open>Patch.apply\<close>. The two loops run over Python sets, whose order is not fixed; the
  model enumerates them in ascending order, and the result does not depend on it
  (lemmas \<open>fold_rdb_discard\<close> and \<open>fold_rdb_add\<close> hold for every enumeration).
\<close>

definition Patch_apply :: "Patch \<Rightarrow> string \<Rightarrow> tagdb \<Rightarrow> tagdb" where
  "Patch_apply p pkg tdb =
     (let ts = setdefault (db tdb) pkg;
          ts = ts - removed p;
          ts = ts \<union> added p;
          d = (db tdb)(pkg \<mapsto> ts);
          r = fold (rdb_discard pkg) (sorted_list_of_set (removed p)) (rdb tdb);
          r = fold (rdb_add pkg) (sorted_list_of_set (added p)) r
      in \<lparr>db = d, rdb = r\<rparr>)"

text \<open>The effect of a patch on one tag set, as \<open>Patch.apply\<close> computes \<open>ts\<close>.\<close>

definition apply_tags :: "Patch \<Rightarrow> string set \<Rightarrow> string set" where
  "apply_tags p ts = (ts - removed p) \<union> added p"

text \<open>The forward and the reverse index agree.\<close>

definition consistent :: "tagdb \<Rightarrow> bool" where
  "consistent tdb \<longleftrightarrow>
     (\<forall>pkg t. t \<in> setdefault (db tdb) pkg \<longleftrightarrow> pkg \<in> setdefault (rdb tdb) t)"

section \<open>PatchSet\<close>

text \<open>
  A \<open>PatchSet\<close> is a Python dictionary from package names to patches: an association
  list in iteration order, with distinct keys. Assigning to a key replaces the value
  of an entry or appends a new one (\<open>AList.update\<close>).

  Sets and patches are values in this section. The source updates its sets in place
  and \<open>PatchSet.add\<close> stores the set objects it is given, without copying: the values
  are what the source computes as long as every set object is held once, by one field
  of one patch. The section on set objects models the objects, what happens when one
  is held twice, and what \<open>Patch.parse\<close> does on a \<open>frozenset\<close>.
\<close>

type_synonym PatchSet = "(string \<times> Patch) list"

definition read_line :: "string list \<Rightarrow> PatchSet \<Rightarrow> string \<Rightarrow> error + PatchSet" where
  "read_line blacklist_tags self raw =
     (let line = strip raw in
      if line = [] then Inr self
      else (case split1 line '': '' of
              None \<Rightarrow>
                if re_match_bare line then Inr self
                else Inl (ValueError (''Cannot parse line '' @ [CHR 0x27] @ line @ [CHR 0x27]))
            | Some (pkg, tags) \<Rightarrow>
                (case map_of self pkg of
                   Some p \<Rightarrow>
                     (case Patch_parse blacklist_tags p tags of
                        Inl e \<Rightarrow> Inl e
                      | Inr p' \<Rightarrow> Inr (AList.update pkg p' self))
                 | None \<Rightarrow>
                     (case Patch_new blacklist_tags tags of
                        Inl e \<Rightarrow> Inl e
                      | Inr patch \<Rightarrow>
                          if \<not> Patch_empty patch then Inr (AList.update pkg patch self)
                          else Inr self))))"

fun PatchSet_read_fd :: "string list \<Rightarrow> PatchSet \<Rightarrow> string list \<Rightarrow> error + PatchSet" where
  "PatchSet_read_fd blacklist_tags self [] = Inr self"
| "PatchSet_read_fd blacklist_tags self (raw # fd) =
     (case read_line blacklist_tags self raw of
        Inl e \<Rightarrow> Inl e
      | Inr self' \<Rightarrow> PatchSet_read_fd blacklist_tags self' fd)"

definition PatchSet_apply_to :: "PatchSet \<Rightarrow> tagdb \<Rightarrow> tagdb" where
  "PatchSet_apply_to self tdb = fold (\<lambda>(pkg, patch) tdb. Patch_apply patch pkg tdb) self tdb"

definition PatchSet_add :: "PatchSet \<Rightarrow> string \<Rightarrow> string set \<Rightarrow> string set \<Rightarrow> PatchSet" where
  "PatchSet_add self pkg add_set removed_set =
     (case map_of self pkg of
        Some p \<Rightarrow> AList.update pkg (Patch_add p add_set removed_set) self
      | None \<Rightarrow>
          (let patch = \<lparr>added = add_set, removed = removed_set\<rparr>
           in if \<not> Patch_empty patch then AList.update pkg patch self else self))"

definition PatchSet_add_patchset :: "PatchSet \<Rightarrow> PatchSet \<Rightarrow> PatchSet" where
  "PatchSet_add_patchset self patchset =
     fold (\<lambda>(pkg, patch) self. PatchSet_add self pkg (added patch) (removed patch)) patchset self"

definition simplified_step ::
  "tagdb \<Rightarrow> string set option \<Rightarrow> string \<times> Patch \<Rightarrow> PatchSet \<Rightarrow> PatchSet" where
  "simplified_step tdb tag_whitelist = (\<lambda>(pkg, patch) res.
     if \<not> has_package tdb pkg then res
     else (let tags = tags_of_package tdb pkg
           in case Patch_simplified patch tags tag_whitelist of
                None \<Rightarrow> res
              | Some new_patch \<Rightarrow> AList.update pkg new_patch res))"

definition PatchSet_simplified :: "PatchSet \<Rightarrow> tagdb \<Rightarrow> string set option \<Rightarrow> PatchSet" where
  "PatchSet_simplified self tdb tag_whitelist = fold (simplified_step tdb tag_whitelist) self []"

definition diff_step1 :: "PatchSet \<Rightarrow> string \<times> Patch \<Rightarrow> PatchSet \<Rightarrow> PatchSet" where
  "diff_step1 patchset = (\<lambda>(pkg, patch) res.
     case map_of patchset pkg of
       None \<Rightarrow> PatchSet_add res pkg (removed patch) (added patch)
     | Some opatch \<Rightarrow>
         (let d = Patch_diff patch opatch in PatchSet_add res pkg (added d) (removed d)))"

definition diff_step2 :: "PatchSet \<Rightarrow> string \<times> Patch \<Rightarrow> PatchSet \<Rightarrow> PatchSet" where
  "diff_step2 self = (\<lambda>(pkg, patch) res.
     if map_of self pkg = None then PatchSet_add res pkg (added patch) (removed patch) else res)"

definition PatchSet_diff :: "PatchSet \<Rightarrow> PatchSet \<Rightarrow> PatchSet" where
  "PatchSet_diff self patchset =
     (let res = fold (diff_step1 patchset) self []
      in fold (diff_step2 self) patchset res)"

text \<open>No package is mapped to an empty patch; every patch has disjoint sets.\<close>

definition no_empty :: "PatchSet \<Rightarrow> bool" where
  "no_empty ps \<longleftrightarrow> list_all (\<lambda>(pkg, patch). \<not> Patch_empty patch) ps"

definition disjoint :: "Patch \<Rightarrow> bool" where
  "disjoint p \<longleftrightarrow> added p \<inter> removed p = {}"

text \<open>
  The three kinds of lines that \<open>read_fd\<close> tells apart before it parses any tag: blank
  after stripping; without separator but matching the regular expression; without
  separator and not matching.
\<close>

definition blank_line :: "string \<Rightarrow> bool" where
  "blank_line raw \<longleftrightarrow> strip raw = []"

definition legacy_line :: "string \<Rightarrow> bool" where
  "legacy_line raw \<longleftrightarrow>
     strip raw \<noteq> [] \<and> split1 (strip raw) '': '' = None \<and> re_match_bare (strip raw)"

definition malformed_line :: "string \<Rightarrow> bool" where
  "malformed_line raw \<longleftrightarrow>
     strip raw \<noteq> [] \<and> split1 (strip raw) '': '' = None \<and> \<not> re_match_bare (strip raw)"

definition cannot_parse :: "string \<Rightarrow> string" where
  "cannot_parse raw = ''Cannot parse line '' @ [CHR 0x27] @ strip raw @ [CHR 0x27]"

text \<open>
  An entry that \<open>PatchSet.simplified\<close> would store unchanged: its package is in the
  database and \<open>Patch.simplified\<close> returns the patch itself.
\<close>

definition settled :: "tagdb \<Rightarrow> string set option \<Rightarrow> string \<times> Patch \<Rightarrow> bool" where
  "settled tdb tag_whitelist = (\<lambda>(pkg, patch).
     has_package tdb pkg \<and>
     Patch_simplified patch (tags_of_package tdb pkg) tag_whitelist = Some patch)"

text \<open>
  What a patch set holds for a package (the empty patch when the package is not a key),
  the tag list that a line of a patch file carries for a package, and the tags of the
  tokens of a tag list that start with a given sign and are not blacklisted.
\<close>

definition entry :: "PatchSet \<Rightarrow> string \<Rightarrow> Patch" where
  "entry ps pkg = (case map_of ps pkg of None \<Rightarrow> Patch_init | Some p \<Rightarrow> p)"

definition line_tags :: "string \<Rightarrow> string \<Rightarrow> string option" where
  "line_tags pkg raw =
     (case split1 (strip raw) '': '' of
        None \<Rightarrow> None
      | Some (k, tags) \<Rightarrow> if k = pkg then Some tags else None)"

definition signed_tags :: "char \<Rightarrow> string list \<Rightarrow> string \<Rightarrow> string set" where
  "signed_tags sign blacklist_tags text =
     set [tag. c # tag \<leftarrow> split text '', '', c = sign \<and> tag \<notin> set blacklist_tags]"

definition line_signed :: "char \<Rightarrow> string list \<Rightarrow> string \<Rightarrow> string \<Rightarrow> string set" where
  "line_signed sign blacklist_tags pkg raw =
     (case line_tags pkg raw of
        None \<Rightarrow> {}
      | Some tags \<Rightarrow> signed_tags sign blacklist_tags tags)"

section \<open>Set objects\<close>

text \<open>
  A Python set object is mutable (\<open>set\<close>) or not (\<open>frozenset\<close>). The heap is the list
  of the set objects created so far, an object is known by its position, and a patch
  holds the positions of its two sets. \<open>x |= y\<close> and \<open>x -= y\<close> update a \<open>set\<close> in place and
  leave the name bound to it; on a \<open>frozenset\<close> they bind the name to a new object.
  Both return the heap and the object that the name is bound to afterwards.
\<close>

datatype pyset = SetObj "string set" | FrozenSetObj "string set"

type_synonym heap = "pyset list"

definition contents :: "heap \<Rightarrow> nat \<Rightarrow> string set" where
  "contents h x =
     (if x < length h then (case h ! x of SetObj s \<Rightarrow> s | FrozenSetObj s \<Rightarrow> s) else {})"

definition ior :: "heap \<Rightarrow> nat \<Rightarrow> nat \<Rightarrow> heap \<times> nat" where
  "ior h x y =
     (if x < length h
      then (case h ! x of
              SetObj s \<Rightarrow> (h[x := SetObj (s \<union> contents h y)], x)
            | FrozenSetObj s \<Rightarrow> (h @ [FrozenSetObj (s \<union> contents h y)], length h))
      else (h, x))"

definition isub :: "heap \<Rightarrow> nat \<Rightarrow> nat \<Rightarrow> heap \<times> nat" where
  "isub h x y =
     (if x < length h
      then (case h ! x of
              SetObj s \<Rightarrow> (h[x := SetObj (s - contents h y)], x)
            | FrozenSetObj s \<Rightarrow> (h @ [FrozenSetObj (s - contents h y)], length h))
      else (h, x))"

record Patch_obj =
  added_at :: nat
  removed_at :: nat

type_synonym PatchSet_obj = "(string \<times> Patch_obj) list"

definition Patch_obj_empty :: "heap \<Rightarrow> Patch_obj \<Rightarrow> bool" where
  "Patch_obj_empty h p \<longleftrightarrow>
     \<not> (contents h (added_at p) \<noteq> {} \<or> contents h (removed_at p) \<noteq> {})"

text \<open>\<open>Patch.add\<close> on objects: the same four statements.\<close>

definition Patch_obj_add :: "heap \<Rightarrow> Patch_obj \<Rightarrow> nat \<Rightarrow> nat \<Rightarrow> heap \<times> Patch_obj" where
  "Patch_obj_add h p add_at rem_at =
     (let (h, a) = ior h (added_at p) add_at;
          (h, r) = isub h (removed_at p) add_at;
          (h, r) = ior h r rem_at;
          (h, a) = isub h a rem_at
      in (h, \<lparr>added_at = a, removed_at = r\<rparr>))"

text \<open>
  \<open>PatchSet.add\<close> on objects. For a new package the patch takes the two objects it is
  given (the two sets that \<open>Patch()\<close> creates first are dropped at once).
\<close>

definition PatchSet_obj_add ::
  "heap \<times> PatchSet_obj \<Rightarrow> string \<Rightarrow> nat \<Rightarrow> nat \<Rightarrow> heap \<times> PatchSet_obj" where
  "PatchSet_obj_add hs pkg add_at rem_at =
     (let (h, self) = hs in
      case map_of self pkg of
        Some p \<Rightarrow>
          (let (h, p) = Patch_obj_add h p add_at rem_at in (h, AList.update pkg p self))
      | None \<Rightarrow>
          (let patch = \<lparr>added_at = add_at, removed_at = rem_at\<rparr>
           in if \<not> Patch_obj_empty h patch then (h, AList.update pkg patch self)
              else (h, self)))"

definition PatchSet_obj_add_patchset ::
  "heap \<times> PatchSet_obj \<Rightarrow> PatchSet_obj \<Rightarrow> heap \<times> PatchSet_obj" where
  "PatchSet_obj_add_patchset hs patchset =
     fold (\<lambda>(pkg, patch) hs. PatchSet_obj_add hs pkg (added_at patch) (removed_at patch))
       patchset hs"

text \<open>The values that a patch and a patch set hold in a heap.\<close>

definition Patch_view :: "heap \<Rightarrow> Patch_obj \<Rightarrow> Patch" where
  "Patch_view h p = \<lparr>added = contents h (added_at p), removed = contents h (removed_at p)\<rparr>"

definition view :: "heap \<Rightarrow> PatchSet_obj \<Rightarrow> PatchSet" where
  "view h ps = map (\<lambda>(pkg, p). (pkg, Patch_view h p)) ps"

text \<open>
  \<open>s.add(tag)\<close>: a \<open>set\<close> is updated in place, a \<open>frozenset\<close> has no method \<open>add\<close>.
  (A position outside the heap names no object; a patch never holds one.)
\<close>

definition is_set :: "heap \<Rightarrow> nat \<Rightarrow> bool" where
  "is_set h x \<longleftrightarrow>
     x < length h \<and> (case h ! x of SetObj s \<Rightarrow> True | FrozenSetObj s \<Rightarrow> False)"

definition set_add :: "heap \<Rightarrow> nat \<Rightarrow> string \<Rightarrow> error + heap" where
  "set_add h x tag =
     (if x < length h
      then (case h ! x of
              SetObj s \<Rightarrow> Inr (h[x := SetObj (insert tag s)])
            | FrozenSetObj s \<Rightarrow> Inl AttributeError)
      else Inl AttributeError)"

text \<open>\<open>Patch.parse\<close> on objects: the fields of the patch stay bound to their objects.\<close>

definition parse_token_obj ::
  "string list \<Rightarrow> heap \<Rightarrow> Patch_obj \<Rightarrow> string \<Rightarrow> error + heap" where
  "parse_token_obj blacklist_tags h p t =
     (let tag = drop 1 t in
      if tag \<in> set blacklist_tags then Inr h
      else (case t of
              [] \<Rightarrow> Inl IndexError
            | c # _ \<Rightarrow>
                if c = CHR ''+'' then set_add h (added_at p) tag
                else if c = CHR ''-'' then set_add h (removed_at p) tag
                else Inr h))"

fun parse_tokens_obj ::
  "string list \<Rightarrow> heap \<Rightarrow> Patch_obj \<Rightarrow> string list \<Rightarrow> error + heap" where
  "parse_tokens_obj blacklist_tags h p [] = Inr h"
| "parse_tokens_obj blacklist_tags h p (t # ts) =
     (case parse_token_obj blacklist_tags h p t of
        Inl e \<Rightarrow> Inl e
      | Inr h' \<Rightarrow> parse_tokens_obj blacklist_tags h' p ts)"

definition Patch_obj_parse ::
  "string list \<Rightarrow> heap \<Rightarrow> Patch_obj \<Rightarrow> string \<Rightarrow> error + heap" where
  "Patch_obj_parse blacklist_tags h p text =
     parse_tokens_obj blacklist_tags h p (split text '', '')"

text \<open>
  Four calls on two patch sets. Object 0 is the \<open>frozenset()\<close> of the default arguments
  of \<open>PatchSet.add\<close>; objects 1, 2 and 3 are sets of the caller, each passed once.
  \<^item> \<open>ps1 = PatchSet(); ps1.add("p", set(["t"]))\<close>
  \<^item> \<open>ps2 = PatchSet(); ps2.add_patchset(ps1)\<close>
  \<^item> \<open>ps1.add("p", removed=set(["t"]))\<close>
  \<^item> \<open>ps2.add("q", set(["u"]))\<close>
  Each constant is the heap with the patch set that the call has worked on.
\<close>

definition caller_heap :: heap where
  "caller_heap = [FrozenSetObj {}, SetObj {''t''}, SetObj {''t''}, SetObj {''u''}]"

definition ps1_added :: "heap \<times> PatchSet_obj" where
  "ps1_added = PatchSet_obj_add (caller_heap, []) ''p'' 1 0"

definition ps2_merged :: "heap \<times> PatchSet_obj" where
  "ps2_merged = PatchSet_obj_add_patchset (fst ps1_added, []) (snd ps1_added)"

definition ps1_removed :: "heap \<times> PatchSet_obj" where
  "ps1_removed = PatchSet_obj_add (fst ps2_merged, snd ps1_added) ''p'' 0 2"

definition ps2_added :: "heap \<times> PatchSet_obj" where
  "ps2_added = PatchSet_obj_add (fst ps1_removed, snd ps2_merged) ''q'' 3 0"

text \<open>
  The other way round: after the first two calls, \<open>ps2.add("p", removed=set(["t"]))\<close>
  works on \<open>ps2\<close>, and \<open>ps1\<close> is not called again.
\<close>

definition ps2_removed :: "heap \<times> PatchSet_obj" where
  "ps2_removed = PatchSet_obj_add ps2_merged ''p'' 0 2"

text \<open>
  Two calls on one patch set, the first with one set for both arguments. Object 0 is
  the \<open>frozenset()\<close> of the default arguments, objects 1 and 2 are sets of the caller.
  \<^item> \<open>s = set(["x"]); ps = PatchSet(); ps.add("p", s, s)\<close>
  \<^item> \<open>ps.add("p", removed=set(["x"]))\<close>
\<close>

definition one_set_heap :: heap where
  "one_set_heap = [FrozenSetObj {}, SetObj {''x''}, SetObj {''x''}]"

definition ps_stored :: "heap \<times> PatchSet_obj" where
  "ps_stored = PatchSet_obj_add (one_set_heap, []) ''p'' 1 1"

definition ps_merged :: "heap \<times> PatchSet_obj" where
  "ps_merged = PatchSet_obj_add ps_stored ''p'' 0 2"

section \<open>The equivalence check of checks.py\<close>

text \<open>
  A violation is the dictionary that \<open>check_tags\<close> yields, as the list of its items;
  the generator is the list of what it yields.
\<close>

type_synonym violation = "(string \<times> string) list"

definition HasEquivs_check_tags :: "string set \<Rightarrow> violation list" where
  "HasEquivs_check_tags tags =
     (let has_role = (''role::devel-lib'' \<in> tags);
          has_devlib = (''devel::library'' \<in> tags)
      in if has_role \<and> \<not> has_devlib
         then [[(''has'', ''role::devel-lib''), (''miss'', ''devel::library'')]]
         else if has_devlib \<and> \<not> has_role
         then [[(''has'', ''devel::library''), (''miss'', ''role::devel-lib'')]]
         else [])"

text \<open>\<open>data.get(key, default)\<close>.\<close>

definition dict_get :: "violation \<Rightarrow> string \<Rightarrow> string \<Rightarrow> string" where
  "dict_get data k dflt = (case map_of data k of None \<Rightarrow> dflt | Some v \<Rightarrow> v)"

section \<open>Basic facts\<close>


lemma Patch_diff_sets:
  "added (Patch_diff p q) = (removed p - removed q) \<union> (added q - added p)"
  "removed (Patch_diff p q) = (added p - added q) \<union> (removed q - removed p)"
  by (simp_all add: Patch_diff_def Let_def)


lemma Patch_eqI: "added p = added q \<Longrightarrow> removed p = removed q \<Longrightarrow> p = (q :: Patch)"
  by simp

lemma tags_of_package_apply:
  "tags_of_package (Patch_apply p pkg tdb) pkg = apply_tags p (tags_of_package tdb pkg)"
  by (simp add: tags_of_package_def Patch_apply_def Let_def apply_tags_def setdefault_def)

lemma set_update_subset: "set (AList.update k v al) \<subseteq> insert (k, v) (set al)"
  by (induction al) auto

lemma list_all_update:
  "list_all P al \<Longrightarrow> P (k, v) \<Longrightarrow> list_all P (AList.update k v al)"
  using set_update_subset [of k v al] by (auto simp: list_all_iff)

lemma map_of_list_all: "list_all P al \<Longrightarrow> map_of al k = Some v \<Longrightarrow> P (k, v)"
  by (auto simp: list_all_iff dest: map_of_SomeD)

section \<open>C1: the difference of two patches\<close>

lemma apply_tags_diff:
  "removed A \<subseteq> T \<Longrightarrow> added A \<inter> T = {} \<Longrightarrow> disjoint B \<Longrightarrow>
   apply_tags (Patch_diff A B) (apply_tags A T) = apply_tags B T"
  unfolding apply_tags_def Patch_diff_sets disjoint_def by blast

text \<open>
  No function of two patches can undo the first and redo the second on every tag set:
  removing a tag forgets whether the tag was there.
\<close>

lemma no_diff_for_all_tag_sets:
  "\<not> (\<exists>d. \<forall>A B T. apply_tags (d A B) (apply_tags A T) = apply_tags B T)"
proof
  assume "\<exists>d. \<forall>A B T. apply_tags (d A B) (apply_tags A T) = apply_tags B T"
  then obtain d where d: "\<And>A B T. apply_tags (d A B) (apply_tags A T) = apply_tags B T"
    by blast
  let ?A = "\<lparr>added = {}, removed = {''x''}\<rparr>"
  have "apply_tags (d ?A Patch_init) (apply_tags ?A {}) = apply_tags Patch_init {}"
    by (rule d)
  moreover have "apply_tags (d ?A Patch_init) (apply_tags ?A {''x''}) = apply_tags Patch_init {''x''}"
    by (rule d)
  moreover have "apply_tags ?A {} = apply_tags ?A {''x''}"
    by (simp add: apply_tags_def)
  ultimately have "apply_tags Patch_init {} = apply_tags Patch_init {''x''}"
    by simp
  then show False
    by (simp add: apply_tags_def Patch_init_def)
qed

text \<open>
  Each of the three conditions under which the difference is right is needed: a patch
  that adds a tag the package has, and a second patch with a tag in both sets.
\<close>

lemma diff_wrong_when_added_tag_present:
  "apply_tags (Patch_diff \<lparr>added = {''x''}, removed = {}\<rparr> Patch_init)
     (apply_tags \<lparr>added = {''x''}, removed = {}\<rparr> {''x''}) = {}
   \<and> apply_tags Patch_init {''x''} = {''x''}"
  by (simp add: apply_tags_def Patch_diff_sets Patch_init_def)

lemma diff_wrong_when_second_patch_overlaps:
  "apply_tags (Patch_diff \<lparr>added = {''x''}, removed = {}\<rparr> \<lparr>added = {''x''}, removed = {''x''}\<rparr>)
     (apply_tags \<lparr>added = {''x''}, removed = {}\<rparr> {}) = {}
   \<and> apply_tags \<lparr>added = {''x''}, removed = {''x''}\<rparr> {} = {''x''}"
  by (simp add: apply_tags_def Patch_diff_sets)

text \<open>
  C1, as stated, fails: package \<open>pkg\<close> has no tags, patch \<open>A\<close> removes the tag \<open>x\<close>
  (which is not there) and patch \<open>B\<close> is empty. \<open>A.diff(B)\<close> adds \<open>x\<close>, so applying \<open>A\<close>
  and then the difference leaves \<open>{x}\<close>, while \<open>B\<close> alone leaves no tag.
\<close>

theorem C1_counterexample:
  "tags_of_package
     (Patch_apply (Patch_diff \<lparr>added = {}, removed = {''x''}\<rparr> Patch_init) ''pkg''
        (Patch_apply \<lparr>added = {}, removed = {''x''}\<rparr> ''pkg''
           \<lparr>db = Map.empty, rdb = Map.empty\<rparr>)) ''pkg''
   \<noteq> tags_of_package (Patch_apply Patch_init ''pkg'' \<lparr>db = Map.empty, rdb = Map.empty\<rparr>) ''pkg''"
  unfolding tags_of_package_apply
  by (simp add: apply_tags_def Patch_diff_sets Patch_init_def tags_of_package_def)

text \<open>
  C1, amended: when every change of \<open>A\<close> takes effect on the tags \<open>T\<close> of the package
  (\<open>A\<close> removes only tags of \<open>T\<close> and adds only tags outside \<open>T\<close>) and \<open>B\<close> has disjoint
  added and removed sets, applying \<open>A\<close> and then \<open>A.diff(B)\<close> leaves the package with the
  tags that applying \<open>B\<close> alone leaves.
\<close>

theorem C1_diff_after_effective_patch:
  assumes "removed A \<subseteq> tags_of_package tdb pkg"
    and "added A \<inter> tags_of_package tdb pkg = {}"
    and "disjoint B"
  shows "tags_of_package (Patch_apply (Patch_diff A B) pkg (Patch_apply A pkg tdb)) pkg
         = tags_of_package (Patch_apply B pkg tdb) pkg"
  using assms by (simp add: tags_of_package_apply apply_tags_diff)

theorem C1_diff_witness:
  "removed \<lparr>added = {''y''}, removed = {''x''}\<rparr>
     \<subseteq> tags_of_package \<lparr>db = [''pkg'' \<mapsto> {''x''}], rdb = [''x'' \<mapsto> {''pkg''}]\<rparr> ''pkg''
   \<and> added \<lparr>added = {''y''}, removed = {''x''}\<rparr>
       \<inter> tags_of_package \<lparr>db = [''pkg'' \<mapsto> {''x''}], rdb = [''x'' \<mapsto> {''pkg''}]\<rparr> ''pkg'' = {}
   \<and> disjoint \<lparr>added = {''z''}, removed = {}\<rparr>
   \<and> tags_of_package
        (Patch_apply (Patch_diff \<lparr>added = {''y''}, removed = {''x''}\<rparr>
                        \<lparr>added = {''z''}, removed = {}\<rparr>) ''pkg''
           (Patch_apply \<lparr>added = {''y''}, removed = {''x''}\<rparr> ''pkg''
              \<lparr>db = [''pkg'' \<mapsto> {''x''}], rdb = [''x'' \<mapsto> {''pkg''}]\<rparr>)) ''pkg''
       = tags_of_package
           (Patch_apply \<lparr>added = {''z''}, removed = {}\<rparr> ''pkg''
              \<lparr>db = [''pkg'' \<mapsto> {''x''}], rdb = [''x'' \<mapsto> {''pkg''}]\<rparr>) ''pkg''"
proof -
  let ?A = "\<lparr>added = {''y''}, removed = {''x''}\<rparr>"
  let ?B = "\<lparr>added = {''z''}, removed = {}\<rparr>"
  let ?t = "\<lparr>db = [''pkg'' \<mapsto> {''x''}], rdb = [''x'' \<mapsto> {''pkg''}]\<rparr>"
  have h1: "removed ?A \<subseteq> tags_of_package ?t ''pkg''"
    by (simp add: tags_of_package_def)
  have h2: "added ?A \<inter> tags_of_package ?t ''pkg'' = {}"
    by (simp add: tags_of_package_def)
  have h3: "disjoint ?B"
    by (simp add: disjoint_def)
  from C1_diff_after_effective_patch [OF h1 h2 h3] h1 h2 h3 show ?thesis
    by blast
qed

section \<open>C2: disjointness of the added and the removed set\<close>





text \<open>
  \<open>PatchSet.add\<close> stores the sets of a new package as they come: when they overlap, so
  do the sets of the stored patch, while merging them into a present package lets
  the removal win.
\<close>

lemma PatchSet_add_new_overlap:
  "PatchSet_add [] ''pkg'' {''x''} {''x''} = [(''pkg'', \<lparr>added = {''x''}, removed = {''x''}\<rparr>)]
   \<and> PatchSet_add [(''pkg'', \<lparr>added = {''y''}, removed = {}\<rparr>)] ''pkg'' {''x''} {''x''}
       = [(''pkg'', \<lparr>added = {''y''}, removed = {''x''}\<rparr>)]"
  by (simp add: PatchSet_add_def Patch_empty_def Patch_add_def)




section \<open>C3: what \<open>Patch.parse\<close> does with a token\<close>

lemma set_add_is_set:
  "is_set h x \<Longrightarrow>
   set_add h x tag = Inr (h[x := SetObj (insert tag (contents h x))])"
  by (auto simp: is_set_def set_add_def contents_def split: pyset.splits)

lemma contents_update:
  "x < length h \<Longrightarrow> contents (h[x := SetObj s]) z = (if z = x then s else contents h z)"
  by (simp add: contents_def nth_list_update)

lemma is_set_update:
  "x < length h \<Longrightarrow> is_set (h[x := SetObj s]) z \<longleftrightarrow> z = x \<or> is_set h z"
  by (auto simp: is_set_def nth_list_update)

lemma parse_token_obj_sets:
  assumes "is_set h (added_at p)" "is_set h (removed_at p)"
    and "t \<noteq> [] \<or> [] \<in> set bl"
  shows "\<exists>h'. parse_token_obj bl h p t = Inr h'
      \<and> length h' = length h
      \<and> is_set h' (added_at p) \<and> is_set h' (removed_at p)
      \<and> (\<forall>z. contents h' z = contents h z
            \<union> (if z = added_at p then {tag. t = CHR ''+'' # tag \<and> tag \<notin> set bl} else {})
            \<union> (if z = removed_at p then {tag. t = CHR ''-'' # tag \<and> tag \<notin> set bl} else {}))"
proof (cases t)
  case Nil
  with assms show ?thesis
    by (auto simp: parse_token_obj_def)
next
  case (Cons c tag)
  have a: "added_at p < length h" and r: "removed_at p < length h"
    using assms(1,2) by (simp_all add: is_set_def)
  show ?thesis
  proof (cases "tag \<in> set bl")
    case True
    with Cons assms(1,2) show ?thesis
      by (auto simp: parse_token_obj_def)
  next
    case False
    consider "c = CHR ''+''" | "c \<noteq> CHR ''+''" "c = CHR ''-''"
      | "c \<noteq> CHR ''+''" "c \<noteq> CHR ''-''"
      by blast
    then show ?thesis
    proof cases
      case 1
      with Cons False assms(1,2) a r show ?thesis
        by (auto simp: parse_token_obj_def set_add_is_set contents_update is_set_update)
    next
      case 2
      with Cons False assms(1,2) a r show ?thesis
        by (auto simp: parse_token_obj_def set_add_is_set contents_update is_set_update)
    next
      case 3
      with Cons False assms(1,2) show ?thesis
        by (auto simp: parse_token_obj_def)
    qed
  qed
qed

lemma parse_tokens_obj_sets:
  assumes "is_set h (added_at p)" "is_set h (removed_at p)"
    and "\<forall>t \<in> set ts. t \<noteq> [] \<or> [] \<in> set bl"
  shows "\<exists>h'. parse_tokens_obj bl h p ts = Inr h'
      \<and> length h' = length h
      \<and> is_set h' (added_at p) \<and> is_set h' (removed_at p)
      \<and> (\<forall>z. contents h' z = contents h z
            \<union> (if z = added_at p then {tag. CHR ''+'' # tag \<in> set ts \<and> tag \<notin> set bl} else {})
            \<union> (if z = removed_at p then {tag. CHR ''-'' # tag \<in> set ts \<and> tag \<notin> set bl} else {}))"
  using assms
proof (induction ts arbitrary: h)
  case Nil
  then show ?case by simp
next
  case (Cons t ts)
  have t: "t \<noteq> [] \<or> [] \<in> set bl" and ts: "\<forall>t \<in> set ts. t \<noteq> [] \<or> [] \<in> set bl"
    using Cons.prems(3) by simp_all
  from parse_token_obj_sets [OF Cons.prems(1,2) t]
  obtain h1 where h1: "parse_token_obj bl h p t = Inr h1" "length h1 = length h"
      "is_set h1 (added_at p)" "is_set h1 (removed_at p)"
    and c1: "\<And>z. contents h1 z = contents h z
            \<union> (if z = added_at p then {tag. t = CHR ''+'' # tag \<and> tag \<notin> set bl} else {})
            \<union> (if z = removed_at p then {tag. t = CHR ''-'' # tag \<and> tag \<notin> set bl} else {})"
    by blast
  from Cons.IH [OF h1(3,4) ts]
  obtain h' where h': "parse_tokens_obj bl h1 p ts = Inr h'" "length h' = length h1"
      "is_set h' (added_at p)" "is_set h' (removed_at p)"
    and c': "\<And>z. contents h' z = contents h1 z
            \<union> (if z = added_at p then {tag. CHR ''+'' # tag \<in> set ts \<and> tag \<notin> set bl} else {})
            \<union> (if z = removed_at p then {tag. CHR ''-'' # tag \<in> set ts \<and> tag \<notin> set bl} else {})"
    by blast
  have "parse_tokens_obj bl h p (t # ts) = Inr h'"
    by (simp add: h1(1) h'(1))
  moreover have "length h' = length h"
    by (simp add: h1(2) h'(2))
  moreover have "contents h' z = contents h z
            \<union> (if z = added_at p
               then {tag. CHR ''+'' # tag \<in> set (t # ts) \<and> tag \<notin> set bl} else {})
            \<union> (if z = removed_at p
               then {tag. CHR ''-'' # tag \<in> set (t # ts) \<and> tag \<notin> set bl} else {})"
    for z
    unfolding c' c1 by auto
  ultimately show ?case
    using h'(3,4) by blast
qed

text \<open>
  On a patch whose sets are two different \<open>set\<close> objects, \<open>Patch.parse\<close> on objects and
  \<open>Patch_parse\<close> on values raise the same error or return the same patch.
\<close>

lemma parse_token_obj_values:
  assumes "is_set h (added_at p)" "is_set h (removed_at p)" "added_at p \<noteq> removed_at p"
  shows "parse_token bl (Patch_view h p) t
         = map_sum id (\<lambda>h'. Patch_view h' p) (parse_token_obj bl h p t)"
proof -
  have a: "added_at p < length h" and r: "removed_at p < length h"
    using assms(1,2) by (simp_all add: is_set_def)
  show ?thesis
    using assms a r
    by (cases t)
       (auto simp: parse_token_def parse_token_obj_def set_add_is_set Patch_view_def
         contents_update Let_def)
qed

lemma parse_token_obj_keeps_sets:
  assumes "is_set h (added_at p)" "is_set h (removed_at p)"
    and "parse_token_obj bl h p t = Inr h'"
  shows "is_set h' (added_at p) \<and> is_set h' (removed_at p)"
proof -
  have a: "added_at p < length h" and r: "removed_at p < length h"
    using assms(1,2) by (simp_all add: is_set_def)
  from assms a r show ?thesis
    by (cases t)
       (auto simp: parse_token_obj_def set_add_is_set is_set_update Let_def split: if_splits)
qed

lemma parse_tokens_obj_values:
  assumes "is_set h (added_at p)" "is_set h (removed_at p)" "added_at p \<noteq> removed_at p"
  shows "parse_tokens bl (Patch_view h p) ts
         = map_sum id (\<lambda>h'. Patch_view h' p) (parse_tokens_obj bl h p ts)"
  using assms(1,2)
proof (induction ts arbitrary: h)
  case Nil
  show ?case by simp
next
  case (Cons t ts)
  show ?case
  proof (cases "parse_token_obj bl h p t")
    case (Inl e)
    with parse_token_obj_values [OF Cons.prems assms(3), of bl t] show ?thesis
      by simp
  next
    case (Inr h1)
    from parse_token_obj_keeps_sets [OF Cons.prems Inr]
    have "is_set h1 (added_at p)" "is_set h1 (removed_at p)"
      by simp_all
    from Cons.IH [OF this] Inr parse_token_obj_values [OF Cons.prems assms(3), of bl t]
    show ?thesis
      by simp
  qed
qed

lemma Patch_obj_parse_values:
  assumes "is_set h (added_at p)" "is_set h (removed_at p)" "added_at p \<noteq> removed_at p"
  shows "Patch_parse bl (Patch_view h p) text
         = map_sum id (\<lambda>h'. Patch_view h' p) (Patch_obj_parse bl h p text)"
  unfolding Patch_parse_def Patch_obj_parse_def
  by (rule parse_tokens_obj_values [OF assms])

text \<open>
  After \<open>ps.add("pkg", set(["a"]))\<close> the patch of \<open>pkg\<close> holds the caller's set (object
  1) as \<open>added\<close> and the \<open>frozenset()\<close> of the default argument (object 0) as
  \<open>removed\<close>. Parsing \<open>-x\<close> into it, as \<open>read_fd\<close> does for the line \<open>pkg: -x\<close>, raises
  \<open>AttributeError\<close>.
\<close>

lemma parse_on_frozenset:
  "Patch_obj_parse [] [FrozenSetObj {}, SetObj {''a''}] \<lparr>added_at = 1, removed_at = 0\<rparr> ''-x''
     = Inl AttributeError"
  by (simp add: Patch_obj_parse_def split_def parse_token_obj_def set_add_def)

text \<open>
  C3, as stated, fails: the token \<open>xfoo\<close> starts with neither sign, and \<open>parse\<close> returns
  normally, with the tags of the other two tokens; the token is skipped.
\<close>

theorem C3_counterexample:
  "Patch_new [] ''+a, xfoo, -b'' = Inr \<lparr>added = {''a''}, removed = {''b''}\<rparr>"
  by (simp add: Patch_new_def Patch_parse_def split_def parse_token_def Patch_init_def)

text \<open>
  C3, amended: on a patch whose added and removed sets are \<open>set\<close> objects (as \<open>Patch()\<close>
  and \<open>Patch(text)\<close> create them), for every text whose tokens (the pieces between the
  separators \<open>", "\<close>) are all non-empty, or when the empty tag is blacklisted,
  \<open>Patch.parse\<close> returns normally; it adds to the added set the tags of the tokens
  that start with \<open>+\<close> and to the removed set the tags of the tokens that start with
  \<open>-\<close>, leaving out the blacklisted tags, and changes nothing else. So a token with
  any other leading character is silently skipped, and so is a token whose tag is
  blacklisted.
\<close>

theorem C3_parse_skips_other_tokens:
  assumes "is_set h (added_at p)" and "is_set h (removed_at p)"
    and "[] \<notin> set (split text '', '') \<or> [] \<in> set blacklist_tags"
  shows "\<exists>h'. Patch_obj_parse blacklist_tags h p text = Inr h'
      \<and> length h' = length h
      \<and> (\<forall>z. contents h' z = contents h z
            \<union> (if z = added_at p
               then {tag. CHR ''+'' # tag \<in> set (split text '', '') \<and> tag \<notin> set blacklist_tags}
               else {})
            \<union> (if z = removed_at p
               then {tag. CHR ''-'' # tag \<in> set (split text '', '') \<and> tag \<notin> set blacklist_tags}
               else {}))"
proof -
  have "\<forall>t \<in> set (split text '', ''). t \<noteq> [] \<or> [] \<in> set blacklist_tags"
    using assms(3) by auto
  from parse_tokens_obj_sets [OF assms(1,2) this] show ?thesis
    unfolding Patch_obj_parse_def by blast
qed

theorem C3_parse_witness:
  "is_set [SetObj {}, SetObj {}] (added_at \<lparr>added_at = 0, removed_at = 1\<rparr>)
   \<and> is_set [SetObj {}, SetObj {}] (removed_at \<lparr>added_at = 0, removed_at = 1\<rparr>)
   \<and> [] \<notin> set (split ''+a, xfoo, -b, +bad'' '', '')
   \<and> (\<exists>h'. Patch_obj_parse [''bad''] [SetObj {}, SetObj {}] \<lparr>added_at = 0, removed_at = 1\<rparr>
               ''+a, xfoo, -b, +bad'' = Inr h'
          \<and> length h' = 2 \<and> contents h' 0 = {''a''} \<and> contents h' 1 = {''b''})"
proof -
  let ?h = "[SetObj {}, SetObj {}]"
  let ?p = "\<lparr>added_at = 0, removed_at = 1\<rparr>"
  have s: "split ''+a, xfoo, -b, +bad'' '', '' = [''+a'', ''xfoo'', ''-b'', ''+bad'']"
    by (simp add: split_def)
  have h1: "is_set ?h (added_at ?p)" and h2: "is_set ?h (removed_at ?p)"
    by (simp_all add: is_set_def)
  have h3: "[] \<notin> set (split ''+a, xfoo, -b, +bad'' '', '')"
    by (simp add: s)
  then have h3': "[] \<notin> set (split ''+a, xfoo, -b, +bad'' '', '') \<or> [] \<in> set [''bad'']"
    by simp
  from C3_parse_skips_other_tokens [OF h1 h2 h3']
  obtain h' where p: "Patch_obj_parse [''bad''] ?h ?p ''+a, xfoo, -b, +bad'' = Inr h'"
    and l: "length h' = length ?h"
    and c: "\<And>z. contents h' z = contents ?h z
            \<union> (if z = added_at ?p
               then {tag. CHR ''+'' # tag \<in> set (split ''+a, xfoo, -b, +bad'' '', '')
                      \<and> tag \<notin> set [''bad'']}
               else {})
            \<union> (if z = removed_at ?p
               then {tag. CHR ''-'' # tag \<in> set (split ''+a, xfoo, -b, +bad'' '', '')
                      \<and> tag \<notin> set [''bad'']}
               else {})"
    by blast
  have "contents h' 0 = {''a''}"
    unfolding c s by (auto simp: contents_def)
  moreover have "contents h' 1 = {''b''}"
    unfolding c s by (auto simp: contents_def)
  ultimately show ?thesis
    using h1 h2 h3 p l by auto
qed

section \<open>C4: the written form of a patch\<close>

text \<open>
  \<open>Patch.__str__\<close> is not the written form: it lists the added tags first.
\<close>

lemma Patch_str_example:
  "Patch_str \<lparr>added = {''b'', ''a''}, removed = {''z''}\<rparr> = ''+a, +b, -z''"
  by code_simp

text \<open>
  C4: for every patch (with finite sets, as every Python set is), \<open>Patch.write\<close> appends
  to the stream the \<open>-tag\<close> entries of the removed tags in strictly ascending order,
  then the \<open>+tag\<close> entries of the added tags in strictly ascending order, joined by
  comma and space; the patch with added \<open>{b, a}\<close> and removed \<open>{z}\<close> is written as
  \<open>-z, +a, +b\<close>.
\<close>

theorem C4_write_order:
  "(finite (added p) \<and> finite (removed p) \<longrightarrow>
      (\<exists>rs as.
         Patch_write p fd = fd @ join '', '' (map ((#) CHR ''-'') rs @ map ((#) CHR ''+'') as)
         \<and> sorted_wrt (<) rs \<and> set rs = removed p
         \<and> sorted_wrt (<) as \<and> set as = added p))
   \<and> Patch_write \<lparr>added = {''b'', ''a''}, removed = {''z''}\<rparr> [] = ''-z, +a, +b''"
proof (intro conjI impI)
  assume fin: "finite (added p) \<and> finite (removed p)"
  let ?rs = "sorted_list_of_set (removed p)" and ?as = "sorted_list_of_set (added p)"
  have "Patch_write p fd = fd @ join '', '' (map ((#) CHR ''-'') ?rs @ map ((#) CHR ''+'') ?as)"
    by (simp add: Patch_write_def Let_def)
  moreover have "sorted_wrt (<) ?rs" "sorted_wrt (<) ?as"
    by simp_all
  moreover have "set ?rs = removed p" "set ?as = added p"
    using fin by simp_all
  ultimately show "\<exists>rs as.
         Patch_write p fd = fd @ join '', '' (map ((#) CHR ''-'') rs @ map ((#) CHR ''+'') as)
         \<and> sorted_wrt (<) rs \<and> set rs = removed p
         \<and> sorted_wrt (<) as \<and> set as = added p"
    by blast
next
  show "Patch_write \<lparr>added = {''b'', ''a''}, removed = {''z''}\<rparr> [] = ''-z, +a, +b''"
    by code_simp
qed

theorem C4_write_witness:
  "finite (added \<lparr>added = {''b'', ''a''}, removed = {''z''}\<rparr>)
   \<and> finite (removed \<lparr>added = {''b'', ''a''}, removed = {''z''}\<rparr>)
   \<and> (\<exists>rs as.
         Patch_write \<lparr>added = {''b'', ''a''}, removed = {''z''}\<rparr> ''pkg: ''
           = ''pkg: '' @ join '', '' (map ((#) CHR ''-'') rs @ map ((#) CHR ''+'') as)
         \<and> sorted_wrt (<) rs \<and> set rs = {''z''}
         \<and> sorted_wrt (<) as \<and> set as = {''b'', ''a''})"
  using C4_write_order [of "\<lparr>added = {''b'', ''a''}, removed = {''z''}\<rparr>" "''pkg: ''"]
  by simp

section \<open>C5: the two indices of the tag database\<close>

text \<open>The loops over \<open>rdb\<close> in closed form, for every order of enumeration.\<close>

lemma fold_rdb_discard:
  "fold (rdb_discard pkg) ts d =
     (\<lambda>t. if t \<in> set ts then Some (setdefault d t - {pkg}) else d t)"
proof (induction ts arbitrary: d)
  case Nil
  show ?case by simp
next
  case (Cons a ts)
  show ?case
    unfolding fold_simps Cons.IH
    by (auto simp: rdb_discard_def setdefault_def fun_eq_iff)
qed

lemma fold_rdb_add:
  "fold (rdb_add pkg) ts d =
     (\<lambda>t. if t \<in> set ts then Some (insert pkg (setdefault d t)) else d t)"
proof (induction ts arbitrary: d)
  case Nil
  show ?case by simp
next
  case (Cons a ts)
  show ?case
    unfolding fold_simps Cons.IH
    by (auto simp: rdb_add_def setdefault_def fun_eq_iff)
qed

lemma db_Patch_apply:
  "setdefault (db (Patch_apply p pkg tdb)) q =
     (if q = pkg then apply_tags p (setdefault (db tdb) pkg) else setdefault (db tdb) q)"
  by (simp add: Patch_apply_def Let_def setdefault_def apply_tags_def)

lemma rdb_Patch_apply:
  assumes "finite (added p)" "finite (removed p)"
  shows "setdefault (rdb (Patch_apply p pkg tdb)) t =
     (if t \<in> added p then insert pkg (setdefault (rdb tdb) t)
      else if t \<in> removed p then setdefault (rdb tdb) t - {pkg}
      else setdefault (rdb tdb) t)"
  using assms
  by (simp add: Patch_apply_def Let_def fold_rdb_discard fold_rdb_add setdefault_def)

lemma consistent_Patch_apply:
  assumes "finite (added p)" "finite (removed p)" "consistent tdb"
  shows "consistent (Patch_apply p pkg tdb)"
  using assms(3)
  unfolding consistent_def db_Patch_apply rdb_Patch_apply [OF assms(1,2)] apply_tags_def
  by auto

lemma consistent_fold_apply:
  "\<forall>(pkg, patch) \<in> set ps. finite (added patch) \<and> finite (removed patch) \<Longrightarrow>
   consistent tdb \<Longrightarrow>
   consistent (fold (\<lambda>(pkg, patch) tdb. Patch_apply patch pkg tdb) ps tdb)"
proof (induction ps arbitrary: tdb)
  case Nil
  then show ?case by simp
next
  case (Cons a ps)
  obtain pkg patch where a: "a = (pkg, patch)" by (cases a)
  with Cons.prems have "consistent (Patch_apply patch pkg tdb)"
    by (simp add: consistent_Patch_apply)
  with Cons.IH Cons.prems a show ?case
    by simp
qed

text \<open>
  C5: when the forward and the reverse index of a tag database agree (package \<open>p\<close> has
  tag \<open>t\<close> in \<open>db\<close> if and only if \<open>p\<close> is in the entry of \<open>t\<close> in \<open>rdb\<close>, a missing entry
  counting as empty), they still agree after \<open>Patch.apply\<close> of any patch to any package,
  and after \<open>PatchSet.apply_to\<close> of any patch set. The sets of a patch are finite.
\<close>

theorem C5_indices_stay_consistent:
  "(finite (added p) \<and> finite (removed p) \<and> consistent tdb
      \<longrightarrow> consistent (Patch_apply p pkg tdb))
   \<and> ((\<forall>(pkg, patch) \<in> set ps. finite (added patch) \<and> finite (removed patch)) \<and> consistent tdb
      \<longrightarrow> consistent (PatchSet_apply_to ps tdb))"
  using consistent_Patch_apply [of p tdb pkg] consistent_fold_apply [of ps tdb]
  by (simp add: PatchSet_apply_to_def)

theorem C5_indices_witness:
  "finite (added \<lparr>added = {''y''}, removed = {''x''}\<rparr>)
   \<and> finite (removed \<lparr>added = {''y''}, removed = {''x''}\<rparr>)
   \<and> consistent \<lparr>db = [''pkg'' \<mapsto> {''x''}], rdb = [''x'' \<mapsto> {''pkg''}]\<rparr>
   \<and> consistent (Patch_apply \<lparr>added = {''y''}, removed = {''x''}\<rparr> ''pkg''
        \<lparr>db = [''pkg'' \<mapsto> {''x''}], rdb = [''x'' \<mapsto> {''pkg''}]\<rparr>)
   \<and> consistent (PatchSet_apply_to [(''pkg'', \<lparr>added = {''y''}, removed = {''x''}\<rparr>)]
        \<lparr>db = [''pkg'' \<mapsto> {''x''}], rdb = [''x'' \<mapsto> {''pkg''}]\<rparr>)"
proof -
  let ?p = "\<lparr>added = {''y''}, removed = {''x''}\<rparr>"
  let ?t = "\<lparr>db = [''pkg'' \<mapsto> {''x''}], rdb = [''x'' \<mapsto> {''pkg''}]\<rparr>"
  have h1: "finite (added ?p) \<and> finite (removed ?p)"
    by simp
  have h2: "consistent ?t"
    by (auto simp: consistent_def setdefault_def split: if_splits)
  have h3: "\<forall>(pkg, patch) \<in> set [(''pkg'', ?p)]. finite (added patch) \<and> finite (removed patch)"
    by simp
  from C5_indices_stay_consistent [of ?p ?t "''pkg''" "[(''pkg'', ?p)]"] h1 h2 h3
  show ?thesis
    by blast
qed

text \<open>The indices after the patch of the witness, evaluated.\<close>

lemma Patch_apply_example:
  "tags_of_package (Patch_apply \<lparr>added = {''y''}, removed = {''x''}\<rparr> ''pkg''
      \<lparr>db = [''pkg'' \<mapsto> {''x''}], rdb = [''x'' \<mapsto> {''pkg''}]\<rparr>) ''pkg'' = {''y''}
   \<and> rdb (Patch_apply \<lparr>added = {''y''}, removed = {''x''}\<rparr> ''pkg''
      \<lparr>db = [''pkg'' \<mapsto> {''x''}], rdb = [''x'' \<mapsto> {''pkg''}]\<rparr>) ''x'' = Some {}
   \<and> rdb (Patch_apply \<lparr>added = {''y''}, removed = {''x''}\<rparr> ''pkg''
      \<lparr>db = [''pkg'' \<mapsto> {''x''}], rdb = [''x'' \<mapsto> {''pkg''}]\<rparr>) ''y'' = Some {''pkg''}"
  by (simp add: tags_of_package_apply apply_tags_def tags_of_package_def Patch_apply_def
      rdb_discard_def rdb_add_def setdefault_def)

section \<open>C6: no empty patch in a patch set\<close>

text \<open>
  When the two sets of a patch and the two sets merged into it are four different
  objects, \<open>Patch.add\<close> on objects computes what \<open>Patch_add\<close> computes on their contents.
\<close>

lemma Patch_obj_add_unshared:
  assumes "added_at p < length h" "removed_at p < length h"
    and "added_at p \<noteq> removed_at p"
    and "add_at \<noteq> added_at p" "add_at \<noteq> removed_at p"
    and "rem_at \<noteq> added_at p" "rem_at \<noteq> removed_at p"
    and "add_at < length h" "rem_at < length h"
  shows "Patch_view (fst (Patch_obj_add h p add_at rem_at)) (snd (Patch_obj_add h p add_at rem_at))
         = Patch_add (Patch_view h p) (contents h add_at) (contents h rem_at)"
proof (cases "h ! added_at p")
  case (SetObj X)
  show ?thesis
  proof (cases "h ! removed_at p")
    case (SetObj Y)
    with \<open>h ! added_at p = SetObj X\<close> assms show ?thesis
      by (simp add: Patch_obj_add_def ior_def isub_def contents_def Patch_view_def Patch_add_def
          Let_def nth_list_update)
  next
    case (FrozenSetObj Y)
    with \<open>h ! added_at p = SetObj X\<close> assms show ?thesis
      by (simp add: Patch_obj_add_def ior_def isub_def contents_def Patch_view_def Patch_add_def
          Let_def nth_list_update nth_append)
  qed
next
  case (FrozenSetObj X)
  show ?thesis
  proof (cases "h ! removed_at p")
    case (SetObj Y)
    with \<open>h ! added_at p = FrozenSetObj X\<close> assms show ?thesis
      by (simp add: Patch_obj_add_def ior_def isub_def contents_def Patch_view_def Patch_add_def
          Let_def nth_list_update nth_append)
  next
    case (FrozenSetObj Y)
    with \<open>h ! added_at p = FrozenSetObj X\<close> assms show ?thesis
      by (simp add: Patch_obj_add_def ior_def isub_def contents_def Patch_view_def Patch_add_def
          Let_def nth_list_update nth_append)
  qed
qed

lemma shared_calls:
  "ps1_added = (caller_heap, [(''p'', \<lparr>added_at = 1, removed_at = 0\<rparr>)])"
  "ps2_merged = (caller_heap, [(''p'', \<lparr>added_at = 1, removed_at = 0\<rparr>)])"
  "ps1_removed =
     ([FrozenSetObj {}, SetObj {}, SetObj {''t''}, SetObj {''u''}, FrozenSetObj {},
       FrozenSetObj {''t''}],
      [(''p'', \<lparr>added_at = 1, removed_at = 5\<rparr>)])"
proof -
  show 1: "ps1_added = (caller_heap, [(''p'', \<lparr>added_at = 1, removed_at = 0\<rparr>)])"
    by (simp add: ps1_added_def PatchSet_obj_add_def Patch_obj_empty_def contents_def
        caller_heap_def)
  show 2: "ps2_merged = (caller_heap, [(''p'', \<lparr>added_at = 1, removed_at = 0\<rparr>)])"
    by (simp add: ps2_merged_def 1 PatchSet_obj_add_patchset_def PatchSet_obj_add_def
        Patch_obj_empty_def contents_def caller_heap_def)
  show "ps1_removed =
     ([FrozenSetObj {}, SetObj {}, SetObj {''t''}, SetObj {''u''}, FrozenSetObj {},
       FrozenSetObj {''t''}],
      [(''p'', \<lparr>added_at = 1, removed_at = 5\<rparr>)])"
    by (simp add: ps1_removed_def 1 2 PatchSet_obj_add_def Patch_obj_add_def ior_def isub_def
        contents_def caller_heap_def)
qed

lemma one_set_calls:
  "ps_stored = (one_set_heap, [(''p'', \<lparr>added_at = 1, removed_at = 1\<rparr>)])"
  "ps_merged =
     ([FrozenSetObj {}, SetObj {}, SetObj {''x''}], [(''p'', \<lparr>added_at = 1, removed_at = 1\<rparr>)])"
proof -
  show 1: "ps_stored = (one_set_heap, [(''p'', \<lparr>added_at = 1, removed_at = 1\<rparr>)])"
    by (simp add: ps_stored_def PatchSet_obj_add_def Patch_obj_empty_def contents_def
        one_set_heap_def)
  show "ps_merged =
     ([FrozenSetObj {}, SetObj {}, SetObj {''x''}], [(''p'', \<lparr>added_at = 1, removed_at = 1\<rparr>)])"
    by (simp add: ps_merged_def 1 PatchSet_obj_add_def Patch_obj_add_def ior_def isub_def
        contents_def one_set_heap_def)
qed

text \<open>
  C6 says that after every sequence of \<open>PatchSet\<close> operations no package is mapped to
  an empty patch. The code stores such a patch in three runs.
  \<^item> \<open>ps.add("p", s, s)\<close> with \<open>s = set(["x"])\<close>, then \<open>ps.add("p", removed=set(["x"]))\<close>:
    the branch of \<open>PatchSet.add\<close> for a package that is present merges in place and
    does not look at the result, and the merge empties \<open>s\<close>, which is both sets of the
    patch. The branch for a new package does test \<open>patch.empty()\<close>.
  \<^item> \<open>ps1.add("p", set(["t"]))\<close>, \<open>ps2.add_patchset(ps1)\<close>,
    \<open>ps1.add("p", removed=set(["t"]))\<close>, \<open>ps2.add("q", set(["u"]))\<close>: after the second
    call the patches of \<open>p\<close> in both patch sets hold object 1 as \<open>added\<close>. The third
    call empties object 1 in place and binds \<open>removed\<close> of the patch in \<open>ps1\<close> to a new
    \<open>frozenset\<close>; the patch of \<open>p\<close> in \<open>ps2\<close> keeps the empty object 0 as \<open>removed\<close>. So
    \<open>ps2\<close> maps \<open>p\<close> to an empty patch, and still does after the fourth call.
  \<^item> The same first two calls, then \<open>ps2.add("p", removed=set(["t"]))\<close>: now \<open>ps1\<close>,
    which is not called again, maps \<open>p\<close> to an empty patch.
\<close>

theorem C6_shared_set_leaves_empty_patch:
  "view (fst ps_merged) (snd ps_merged) = [(''p'', \<lparr>added = {}, removed = {}\<rparr>)]
   \<and> \<not> no_empty (view (fst ps_merged) (snd ps_merged))
   \<and> view (fst ps2_added) (snd ps1_removed) = [(''p'', \<lparr>added = {}, removed = {''t''}\<rparr>)]
   \<and> view (fst ps2_added) (snd ps2_added)
       = [(''p'', \<lparr>added = {}, removed = {}\<rparr>), (''q'', \<lparr>added = {''u''}, removed = {}\<rparr>)]
   \<and> \<not> no_empty (view (fst ps2_added) (snd ps2_added))
   \<and> view (fst ps2_removed) (snd ps2_removed) = [(''p'', \<lparr>added = {}, removed = {''t''}\<rparr>)]
   \<and> view (fst ps2_removed) (snd ps1_added) = [(''p'', \<lparr>added = {}, removed = {}\<rparr>)]
   \<and> \<not> no_empty (view (fst ps2_removed) (snd ps1_added))"
proof -
  have a: "view (fst ps_merged) (snd ps_merged) = [(''p'', \<lparr>added = {}, removed = {}\<rparr>)]"
    by (simp add: one_set_calls view_def Patch_view_def contents_def)
  have b: "view (fst ps2_added) (snd ps1_removed) = [(''p'', \<lparr>added = {}, removed = {''t''}\<rparr>)]"
    "view (fst ps2_added) (snd ps2_added)
       = [(''p'', \<lparr>added = {}, removed = {}\<rparr>), (''q'', \<lparr>added = {''u''}, removed = {}\<rparr>)]"
    by (simp_all add: ps2_added_def shared_calls PatchSet_obj_add_def Patch_obj_empty_def
        contents_def view_def Patch_view_def)
  have r: "ps2_removed =
     ([FrozenSetObj {}, SetObj {}, SetObj {''t''}, SetObj {''u''}, FrozenSetObj {},
       FrozenSetObj {''t''}],
      [(''p'', \<lparr>added_at = 1, removed_at = 5\<rparr>)])"
    by (simp add: ps2_removed_def shared_calls PatchSet_obj_add_def Patch_obj_add_def ior_def
        isub_def contents_def caller_heap_def)
  have c: "view (fst ps2_removed) (snd ps2_removed) = [(''p'', \<lparr>added = {}, removed = {''t''}\<rparr>)]"
    "view (fst ps2_removed) (snd ps1_added) = [(''p'', \<lparr>added = {}, removed = {}\<rparr>)]"
    by (simp_all add: r shared_calls view_def Patch_view_def contents_def)
  have e: "\<not> no_empty [(''p'', \<lparr>added = {}, removed = {}\<rparr>)]"
    "\<not> no_empty [(''p'', \<lparr>added = {}, removed = {}\<rparr>), (''q'', \<lparr>added = {''u''}, removed = {}\<rparr>)]"
    by (simp_all add: no_empty_def Patch_empty_def)
  from a b c e show ?thesis
    by simp
qed

section \<open>Reading keeps the patches non-empty\<close>

lemma parse_token_mono:
  "parse_token bl p t = Inr q \<Longrightarrow> added p \<subseteq> added q \<and> removed p \<subseteq> removed q"
  by (auto simp: parse_token_def Let_def split: if_splits list.splits)

lemma parse_tokens_mono:
  "parse_tokens bl p ts = Inr q \<Longrightarrow> added p \<subseteq> added q \<and> removed p \<subseteq> removed q"
proof (induction ts arbitrary: p)
  case Nil
  then show ?case by simp
next
  case (Cons t ts)
  from Cons.prems obtain p' where 1: "parse_token bl p t = Inr p'"
    and 2: "parse_tokens bl p' ts = Inr q"
    by (auto split: sum.splits)
  from parse_token_mono [OF 1] Cons.IH [OF 2] show ?case
    by blast
qed

lemma Patch_parse_not_empty:
  "Patch_parse bl p text = Inr q \<Longrightarrow> \<not> Patch_empty p \<Longrightarrow> \<not> Patch_empty q"
  unfolding Patch_parse_def Patch_empty_def
  by (drule parse_tokens_mono) blast

lemma no_empty_read_line:
  assumes ne: "no_empty ps" and rd: "read_line bl ps raw = Inr ps'"
  shows "no_empty ps'"
proof (cases "split1 (strip raw) '': ''")
  case None
  with rd have "ps' = ps"
    by (auto simp: read_line_def Let_def split: if_splits)
  with ne show ?thesis by simp
next
  case (Some pt)
  obtain pkg tags where pt: "pt = (pkg, tags)" by (cases pt)
  show ?thesis
  proof (cases "strip raw = []")
    case True
    with rd have "ps' = ps"
      by (simp add: read_line_def)
    with ne show ?thesis by simp
  next
    case False
    show ?thesis
    proof (cases "map_of ps pkg")
      case None
      with rd Some pt False
      have "ps' = ps \<or> (\<exists>q. \<not> Patch_empty q \<and> ps' = AList.update pkg q ps)"
        by (auto simp: read_line_def Let_def split: sum.splits if_splits)
      with ne show ?thesis
        by (auto simp: no_empty_def list_all_update)
    next
      case (Some p)
      with ne have p: "\<not> Patch_empty p"
        unfolding no_empty_def using map_of_list_all by fastforce
      from rd \<open>split1 (strip raw) '': '' = Some pt\<close> pt False Some
      obtain q where q: "Patch_parse bl p tags = Inr q" and ps': "ps' = AList.update pkg q ps"
        by (auto simp: read_line_def Let_def split: sum.splits)
      from Patch_parse_not_empty [OF q p] ne ps' show ?thesis
        by (simp add: no_empty_def list_all_update)
    qed
  qed
qed

lemma no_empty_read_fd:
  "no_empty ps \<Longrightarrow> PatchSet_read_fd bl ps fd = Inr ps' \<Longrightarrow> no_empty ps'"
proof (induction fd arbitrary: ps)
  case Nil
  then show ?case by simp
next
  case (Cons raw fd)
  from Cons.prems(2) obtain ps1 where 1: "read_line bl ps raw = Inr ps1"
    and 2: "PatchSet_read_fd bl ps1 fd = Inr ps'"
    by (auto split: sum.splits)
  from no_empty_read_line [OF Cons.prems(1) 1] Cons.IH 2 show ?case
    by blast
qed

section \<open>C7: simplifying twice\<close>

lemma Patch_simplified_idem:
  "Patch_simplified p tags wl = Some q \<Longrightarrow> Patch_simplified q tags wl = Some q"
  unfolding Patch_simplified_def Let_def
  by (auto split: if_splits)

lemma simplified_step_settled:
  "list_all (settled tdb wl) acc \<Longrightarrow> list_all (settled tdb wl) (simplified_step tdb wl a acc)"
  by (cases a)
     (auto simp: simplified_step_def Let_def settled_def split: option.splits
       intro!: list_all_update dest: Patch_simplified_idem)

lemma simplified_step_distinct:
  "distinct (map fst acc) \<Longrightarrow> distinct (map fst (simplified_step tdb wl a acc))"
  by (cases a) (auto simp: simplified_step_def Let_def distinct_update split: option.splits)

lemma fold_simplified_settled:
  "list_all (settled tdb wl) acc \<Longrightarrow>
   list_all (settled tdb wl) (fold (simplified_step tdb wl) ps acc)"
  by (induction ps arbitrary: acc) (simp_all add: simplified_step_settled)

lemma fold_simplified_distinct:
  "distinct (map fst acc) \<Longrightarrow> distinct (map fst (fold (simplified_step tdb wl) ps acc))"
  by (induction ps arbitrary: acc) (simp_all add: simplified_step_distinct)

lemma update_append_new: "k \<notin> fst ` set al \<Longrightarrow> AList.update k v al = al @ [(k, v)]"
  by (induction al) auto

lemma fold_simplified_fixed:
  "list_all (settled tdb wl) ps \<Longrightarrow> distinct (map fst ps) \<Longrightarrow>
   fst ` set ps \<inter> fst ` set acc = {} \<Longrightarrow>
   fold (simplified_step tdb wl) ps acc = acc @ ps"
proof (induction ps arbitrary: acc)
  case Nil
  then show ?case by simp
next
  case (Cons a ps)
  obtain pkg patch where a: "a = (pkg, patch)" by (cases a)
  from Cons.prems(1) a have "settled tdb wl (pkg, patch)" by simp
  moreover from Cons.prems(3) a have "pkg \<notin> fst ` set acc" by auto
  ultimately have step: "simplified_step tdb wl a acc = acc @ [a]"
    by (simp add: a simplified_step_def settled_def update_append_new)
  have "fst ` set ps \<inter> fst ` set (acc @ [a]) = {}"
    using Cons.prems(2,3) by auto
  with Cons.IH [of "acc @ [a]"] Cons.prems(1,2) step show ?case
    by simp
qed

text \<open>The test of tests.py: every change of the patch is already in the database.\<close>

lemma test_simplify:
  "PatchSet_simplified
     (PatchSet_add [] ''vzdump'' {''admin::backup'', ''interface::commandline''} {})
     \<lparr>db = [''vzdump'' \<mapsto> {''admin::backup'', ''interface::commandline'', ''role::program''}],
      rdb = [''admin::backup'' \<mapsto> {''vzdump''}, ''interface::commandline'' \<mapsto> {''vzdump''},
             ''role::program'' \<mapsto> {''vzdump''}]\<rparr>
     None = []"
  by (simp add: PatchSet_add_def Patch_empty_def PatchSet_simplified_def simplified_step_def
      has_package_def tags_of_package_def Patch_simplified_def truthy_def)

text \<open>
  C7: for every patch set, tag database and optional whitelist, simplifying the
  simplified patch set with the same arguments returns it unchanged: the same packages
  in the same order, each with the same added and removed sets.
\<close>

theorem C7_simplified_idempotent:
  "PatchSet_simplified (PatchSet_simplified S tdb wl) tdb wl = PatchSet_simplified S tdb wl"
proof -
  let ?R = "PatchSet_simplified S tdb wl"
  have "list_all (settled tdb wl) ?R"
    unfolding PatchSet_simplified_def by (rule fold_simplified_settled) simp
  moreover have "distinct (map fst ?R)"
    unfolding PatchSet_simplified_def by (rule fold_simplified_distinct) simp
  ultimately have "fold (simplified_step tdb wl) ?R [] = [] @ ?R"
    by (intro fold_simplified_fixed) simp_all
  then show ?thesis
    by (simp add: PatchSet_simplified_def)
qed

theorem C7_simplified_witness:
  "PatchSet_simplified
     [(''a'', \<lparr>added = {''t1'', ''t2''}, removed = {''t3'', ''t4''}\<rparr>),
      (''gone'', \<lparr>added = {''t1''}, removed = {}\<rparr>)]
     \<lparr>db = [''a'' \<mapsto> {''t1'', ''t3''}], rdb = [''t1'' \<mapsto> {''a''}, ''t3'' \<mapsto> {''a''}]\<rparr>
     (Some {''t2'', ''t3'', ''t4''})
   = [(''a'', \<lparr>added = {''t2''}, removed = {''t3''}\<rparr>)]
   \<and> PatchSet_simplified
       (PatchSet_simplified
          [(''a'', \<lparr>added = {''t1'', ''t2''}, removed = {''t3'', ''t4''}\<rparr>),
           (''gone'', \<lparr>added = {''t1''}, removed = {}\<rparr>)]
          \<lparr>db = [''a'' \<mapsto> {''t1'', ''t3''}], rdb = [''t1'' \<mapsto> {''a''}, ''t3'' \<mapsto> {''a''}]\<rparr>
          (Some {''t2'', ''t3'', ''t4''}))
       \<lparr>db = [''a'' \<mapsto> {''t1'', ''t3''}], rdb = [''t1'' \<mapsto> {''a''}, ''t3'' \<mapsto> {''a''}]\<rparr>
       (Some {''t2'', ''t3'', ''t4''})
     = [(''a'', \<lparr>added = {''t2''}, removed = {''t3''}\<rparr>)]"
proof -
  let ?S = "[(''a'', \<lparr>added = {''t1'', ''t2''}, removed = {''t3'', ''t4''}\<rparr>),
             (''gone'', \<lparr>added = {''t1''}, removed = {}\<rparr>)]"
  let ?t = "\<lparr>db = [''a'' \<mapsto> {''t1'', ''t3''}], rdb = [''t1'' \<mapsto> {''a''}, ''t3'' \<mapsto> {''a''}]\<rparr>"
  let ?w = "Some {''t2'', ''t3'', ''t4''}"
  have e: "PatchSet_simplified ?S ?t ?w = [(''a'', \<lparr>added = {''t2''}, removed = {''t3''}\<rparr>)]"
    by (simp add: PatchSet_simplified_def simplified_step_def has_package_def
        tags_of_package_def Patch_simplified_def truthy_def Let_def insert_commute)
  from C7_simplified_idempotent [of ?S ?t ?w] e show ?thesis
    by simp
qed

section \<open>C8: the errors of \<open>PatchSet.read_fd\<close>\<close>

text \<open>A line is without separator when \<open>": "\<close> occurs nowhere in it.\<close>

lemma split_once_None_iff:
  "sep \<noteq> [] \<Longrightarrow> split_once sep acc s = None \<longleftrightarrow> (\<forall>a b. s \<noteq> a @ sep @ b)"
proof (induction s arbitrary: acc)
  case Nil
  then show ?case by simp
next
  case (Cons c cs)
  show ?case
  proof (cases "prefix sep (c # cs)")
    case True
    then obtain b where "c # cs = sep @ b"
      by (auto simp: prefix_def)
    then have "c # cs = [] @ sep @ b" by simp
    with True show ?thesis
      by (metis option.distinct(1) split_once.simps(2))
  next
    case False
    have "(\<forall>a b. c # cs \<noteq> a @ sep @ b) \<longleftrightarrow> (\<forall>a b. cs \<noteq> a @ sep @ b)"
    proof
      assume h: "\<forall>a b. c # cs \<noteq> a @ sep @ b"
      show "\<forall>a b. cs \<noteq> a @ sep @ b"
      proof (intro allI notI)
        fix a b assume "cs = a @ sep @ b"
        then have "c # cs = (c # a) @ sep @ b" by simp
        with h show False by blast
      qed
    next
      assume h: "\<forall>a b. cs \<noteq> a @ sep @ b"
      show "\<forall>a b. c # cs \<noteq> a @ sep @ b"
      proof (intro allI notI)
        fix a b assume e: "c # cs = a @ sep @ b"
        show False
        proof (cases a)
          case Nil
          with e have "prefix sep (c # cs)" by (simp add: prefix_def)
          with False show False by simp
        next
          case (Cons x a')
          with e have "cs = a' @ sep @ b" by simp
          with h show False by blast
        qed
      qed
    qed
    with False Cons.IH [OF Cons.prems, of "c # acc"] show ?thesis
      by simp
  qed
qed

lemma split1_None_iff:
  "split1 line '': '' = None \<longleftrightarrow> (\<forall>a b. line \<noteq> a @ '': '' @ b)"
  unfolding split1_def by (rule split_once_None_iff) simp

text \<open>\<open>Patch.parse\<close> raises nothing but the \<open>IndexError\<close> of an empty token.\<close>

lemma parse_token_error: "parse_token bl p t = Inl e \<Longrightarrow> e = IndexError"
  by (auto simp: parse_token_def Let_def split: if_splits list.splits)

lemma parse_tokens_error: "parse_tokens bl p ts = Inl e \<Longrightarrow> e = IndexError"
  by (induction ts arbitrary: p) (auto split: sum.splits dest: parse_token_error)

lemma Patch_parse_error: "Patch_parse bl p text = Inl e \<Longrightarrow> e = IndexError"
  unfolding Patch_parse_def by (rule parse_tokens_error)

lemma read_line_skip: "blank_line raw \<or> legacy_line raw \<Longrightarrow> read_line bl ps raw = Inr ps"
  by (auto simp: blank_line_def legacy_line_def read_line_def)

lemma read_line_malformed:
  "malformed_line raw \<Longrightarrow> read_line bl ps raw = Inl (ValueError (cannot_parse raw))"
  by (simp add: malformed_line_def read_line_def cannot_parse_def)

lemma read_line_ValueError:
  assumes "read_line bl ps raw = Inl (ValueError m)"
  shows "malformed_line raw \<and> m = cannot_parse raw"
proof (cases "split1 (strip raw) '': ''")
  case None
  with assms show ?thesis
    by (auto simp: read_line_def Let_def malformed_line_def cannot_parse_def split: if_splits)
next
  case (Some pt)
  obtain pkg tags where "pt = (pkg, tags)" by (cases pt)
  with assms Some have False
    by (auto simp: read_line_def Let_def Patch_new_def
        split: if_splits option.splits sum.splits dest: Patch_parse_error)
  then show ?thesis ..
qed

lemma read_fd_filter:
  "PatchSet_read_fd bl ps (filter (\<lambda>raw. \<not> blank_line raw \<and> \<not> legacy_line raw) fd)
     = PatchSet_read_fd bl ps fd"
proof (induction fd arbitrary: ps)
  case Nil
  show ?case by simp
next
  case (Cons raw fd)
  show ?case
  proof (cases "blank_line raw \<or> legacy_line raw")
    case True
    then have "read_line bl ps raw = Inr ps" by (rule read_line_skip)
    with True Cons.IH show ?thesis by auto
  next
    case False
    with Cons.IH show ?thesis by (auto split: sum.splits)
  qed
qed

lemma read_fd_append:
  "PatchSet_read_fd bl ps (pre @ post) =
     (case PatchSet_read_fd bl ps pre of
        Inl e \<Rightarrow> Inl e
      | Inr ps' \<Rightarrow> PatchSet_read_fd bl ps' post)"
  by (induction pre arbitrary: ps) (auto split: sum.splits)

lemma read_fd_malformed:
  "PatchSet_read_fd bl ps pre = Inr ps' \<Longrightarrow> malformed_line raw \<Longrightarrow>
   PatchSet_read_fd bl ps (pre @ raw # post) = Inl (ValueError (cannot_parse raw))"
  by (simp add: read_fd_append read_line_malformed)

lemma read_fd_ValueError:
  "PatchSet_read_fd bl ps fd = Inl (ValueError m) \<Longrightarrow>
   \<exists>raw \<in> set fd. malformed_line raw \<and> m = cannot_parse raw"
proof (induction fd arbitrary: ps)
  case Nil
  then show ?case by simp
next
  case (Cons raw fd)
  show ?case
  proof (cases "read_line bl ps raw")
    case (Inl e)
    with Cons.prems have "read_line bl ps raw = Inl (ValueError m)" by simp
    from read_line_ValueError [OF this] show ?thesis by simp
  next
    case (Inr ps1)
    with Cons.prems have "PatchSet_read_fd bl ps1 fd = Inl (ValueError m)" by simp
    from Cons.IH [OF this] show ?thesis by auto
  qed
qed

text \<open>
  The other exception that can leave \<open>read_fd\<close> is not the parse error: a line with an
  empty token makes \<open>t[0]\<close> in \<open>Patch.parse\<close> raise \<open>IndexError\<close>.
\<close>

lemma read_fd_empty_token:
  "PatchSet_read_fd [] [] [''pkg: , +a''] = Inl IndexError"
  by (simp add: read_line_def strip_def is_space_def split1_def Patch_new_def Patch_parse_def
      split_def parse_token_def)

text \<open>
  C8: \<open>read_fd\<close> skips the lines that are blank after stripping and the lines without
  the separator \<open>": "\<close> that match \<open>^[^: ,]+:?$\<close>: the patch set is unchanged by such a
  line, and a file reads as it does without them. A non-blank line without the
  separator that does not match raises \<open>ValueError\<close> with the message
  \<open>Cannot parse line '...'\<close> around the stripped line, as soon as the lines in front of
  it have been read. That error is raised for no other line and with no other message.
\<close>

theorem C8_read_fd_parse_error:
  "(blank_line raw \<or> legacy_line raw \<longrightarrow> read_line bl ps raw = Inr ps)
   \<and> PatchSet_read_fd bl ps (filter (\<lambda>raw. \<not> blank_line raw \<and> \<not> legacy_line raw) fd)
       = PatchSet_read_fd bl ps fd
   \<and> (malformed_line raw \<longrightarrow> read_line bl ps raw = Inl (ValueError (cannot_parse raw)))
   \<and> (malformed_line raw \<and> PatchSet_read_fd bl ps pre = Inr ps' \<longrightarrow>
        PatchSet_read_fd bl ps (pre @ raw # post) = Inl (ValueError (cannot_parse raw)))
   \<and> (\<forall>m. read_line bl ps raw = Inl (ValueError m) \<longrightarrow>
        malformed_line raw \<and> m = cannot_parse raw)
   \<and> (\<forall>m. PatchSet_read_fd bl ps fd = Inl (ValueError m) \<longrightarrow>
        (\<exists>raw \<in> set fd. malformed_line raw \<and> m = cannot_parse raw))"
  using read_line_skip [of raw bl ps] read_fd_filter [of bl ps fd]
    read_line_malformed [of raw bl ps] read_fd_malformed [of bl ps pre ps' raw post]
    read_line_ValueError [of bl ps raw] read_fd_ValueError [of bl ps fd]
  by blast

theorem C8_read_fd_witness:
  "blank_line [CHR '' '', CHR 0x0A]
   \<and> read_line [] [] [CHR '' '', CHR 0x0A] = Inr []
   \<and> legacy_line ''pkg:''
   \<and> read_line [] [] ''pkg:'' = Inr []
   \<and> malformed_line ''foo bar''
   \<and> read_line [] [] ''foo bar'' = Inl (ValueError (cannot_parse ''foo bar''))
   \<and> PatchSet_read_fd [] [] [[CHR '' '', CHR 0x0A], ''pkg:''] = Inr []
   \<and> PatchSet_read_fd [] [] ([[CHR '' '', CHR 0x0A], ''pkg:''] @ ''foo bar'' # [''last: +a''])
       = Inl (ValueError (cannot_parse ''foo bar''))
   \<and> cannot_parse ''foo bar'' = ''Cannot parse line '' @ [CHR 0x27] @ ''foo bar'' @ [CHR 0x27]"
proof -
  have b: "blank_line [CHR '' '', CHR 0x0A]"
    by (simp add: blank_line_def strip_def is_space_def)
  have l: "legacy_line ''pkg:''"
    by (simp add: legacy_line_def strip_def is_space_def split1_def re_match_bare_def
        re_bare_to_end_def re_name_char_def)
  have m: "malformed_line ''foo bar''"
    by (simp add: malformed_line_def strip_def is_space_def split1_def re_match_bare_def
        re_bare_to_end_def re_name_char_def)
  have c: "cannot_parse ''foo bar'' = ''Cannot parse line '' @ [CHR 0x27] @ ''foo bar'' @ [CHR 0x27]"
    by (simp add: cannot_parse_def strip_def is_space_def)
  have r1: "read_line [] [] [CHR '' '', CHR 0x0A] = Inr []"
    using C8_read_fd_parse_error [of "[CHR '' '', CHR 0x0A]" "[]" "[]"] b by blast
  have r2: "read_line [] [] ''pkg:'' = Inr []"
    using C8_read_fd_parse_error [of "''pkg:''" "[]" "[]"] l by blast
  have p: "PatchSet_read_fd [] [] [[CHR '' '', CHR 0x0A], ''pkg:''] = Inr []"
    by (simp add: r1 r2)
  from C8_read_fd_parse_error [of "''foo bar''" "[]" "[]" _ "[[CHR '' '', CHR 0x0A], ''pkg:'']"
      "[]" "[''last: +a'']"] m p
  have "read_line [] [] ''foo bar'' = Inl (ValueError (cannot_parse ''foo bar''))"
    and "PatchSet_read_fd [] [] ([[CHR '' '', CHR 0x0A], ''pkg:''] @ ''foo bar'' # [''last: +a''])
       = Inl (ValueError (cannot_parse ''foo bar''))"
    by blast+
  with b l m c r1 r2 p show ?thesis
    by blast
qed

section \<open>C9: the check that two tags go together\<close>

text \<open>
  C9: on the tag set \<open>{role::devel-lib}\<close>, and on every tag set with \<open>role::devel-lib\<close>
  and without \<open>devel::library\<close>, \<open>HasEquivsTagcheck.check_tags\<close> yields exactly one
  violation, which has \<open>role::devel-lib\<close> under \<open>has\<close> and \<open>devel::library\<close> under
  \<open>miss\<close>; on every tag set with \<open>devel::library\<close> and without \<open>role::devel-lib\<close> it
  yields exactly one violation, with the two tags exchanged.
\<close>

theorem C9_equivs_violation:
  "HasEquivs_check_tags {''role::devel-lib''}
     = [[(''has'', ''role::devel-lib''), (''miss'', ''devel::library'')]]
   \<and> (''role::devel-lib'' \<in> tags \<and> ''devel::library'' \<notin> tags \<longrightarrow>
        HasEquivs_check_tags tags
          = [[(''has'', ''role::devel-lib''), (''miss'', ''devel::library'')]])
   \<and> (''devel::library'' \<in> tags \<and> ''role::devel-lib'' \<notin> tags \<longrightarrow>
        HasEquivs_check_tags tags
          = [[(''has'', ''devel::library''), (''miss'', ''role::devel-lib'')]])"
  by (simp add: HasEquivs_check_tags_def)

theorem C9_equivs_witness:
  "''devel::library'' \<in> {''devel::library'', ''devel::lang:c''}
   \<and> ''role::devel-lib'' \<notin> {''devel::library'', ''devel::lang:c''}
   \<and> HasEquivs_check_tags {''devel::library'', ''devel::lang:c''}
       = [[(''has'', ''devel::library''), (''miss'', ''role::devel-lib'')]]
   \<and> ''role::devel-lib'' \<in> {''role::devel-lib'', ''devel::lang:c''}
   \<and> ''devel::library'' \<notin> {''role::devel-lib'', ''devel::lang:c''}
   \<and> HasEquivs_check_tags {''role::devel-lib'', ''devel::lang:c''}
       = [[(''has'', ''role::devel-lib''), (''miss'', ''devel::library'')]]
   \<and> map (\<lambda>data. dict_get data ''miss'' ''(undefined)'')
        (HasEquivs_check_tags {''role::devel-lib''}) = [''devel::library'']"
proof -
  have h1: "''devel::library'' \<in> {''devel::library'', ''devel::lang:c''}
      \<and> ''role::devel-lib'' \<notin> {''devel::library'', ''devel::lang:c''}"
    by simp
  have h2: "''role::devel-lib'' \<in> {''role::devel-lib'', ''devel::lang:c''}
      \<and> ''devel::library'' \<notin> {''role::devel-lib'', ''devel::lang:c''}"
    by simp
  from C9_equivs_violation [of "{''devel::library'', ''devel::lang:c''}"] h1
  have a: "HasEquivs_check_tags {''devel::library'', ''devel::lang:c''}
       = [[(''has'', ''devel::library''), (''miss'', ''role::devel-lib'')]]"
    by blast
  from C9_equivs_violation [of "{''role::devel-lib'', ''devel::lang:c''}"] h2
  have b: "HasEquivs_check_tags {''role::devel-lib'', ''devel::lang:c''}
       = [[(''has'', ''role::devel-lib''), (''miss'', ''devel::library'')]]"
    by blast
  from C9_equivs_violation [of "{}"]
  have c: "map (\<lambda>data. dict_get data ''miss'' ''(undefined)'')
        (HasEquivs_check_tags {''role::devel-lib''}) = [''devel::library'']"
    by (simp add: dict_get_def)
  from h1 h2 a b c show ?thesis
    by blast
qed

section \<open>C10: several lines for one package\<close>

lemma parse_token_Inr:
  "parse_token bl p t = Inr q \<Longrightarrow>
   added q = added p \<union> {tag. t = CHR ''+'' # tag \<and> tag \<notin> set bl} \<and>
   removed q = removed p \<union> {tag. t = CHR ''-'' # tag \<and> tag \<notin> set bl}"
  by (cases t) (auto simp: parse_token_def Let_def split: if_splits)

lemma parse_tokens_Inr:
  "parse_tokens bl p ts = Inr q \<Longrightarrow>
   added q = added p \<union> {tag. CHR ''+'' # tag \<in> set ts \<and> tag \<notin> set bl} \<and>
   removed q = removed p \<union> {tag. CHR ''-'' # tag \<in> set ts \<and> tag \<notin> set bl}"
proof (induction ts arbitrary: p)
  case Nil
  then show ?case by simp
next
  case (Cons t ts)
  from Cons.prems obtain p' where 1: "parse_token bl p t = Inr p'"
    and 2: "parse_tokens bl p' ts = Inr q"
    by (auto split: sum.splits)
  from parse_token_Inr [OF 1] Cons.IH [OF 2] show ?case
    by auto
qed

lemma signed_tags_eq:
  "signed_tags sign bl text = {tag. sign # tag \<in> set (split text '', '') \<and> tag \<notin> set bl}"
  unfolding signed_tags_def
  by (auto split: list.splits)

lemma Patch_parse_Inr:
  "Patch_parse bl p text = Inr q \<Longrightarrow>
   added q = added p \<union> signed_tags CHR ''+'' bl text \<and>
   removed q = removed p \<union> signed_tags CHR ''-'' bl text"
  unfolding Patch_parse_def signed_tags_eq by (rule parse_tokens_Inr)

lemma entry_read_line:
  assumes rd: "read_line bl ps raw = Inr ps'"
  shows "added (entry ps' pkg) = added (entry ps pkg) \<union> line_signed CHR ''+'' bl pkg raw
       \<and> removed (entry ps' pkg) = removed (entry ps pkg) \<union> line_signed CHR ''-'' bl pkg raw"
proof (cases "split1 (strip raw) '': ''")
  case None
  with rd have "ps' = ps"
    by (auto simp: read_line_def Let_def split: if_splits)
  with None show ?thesis
    by (simp add: line_signed_def line_tags_def)
next
  case (Some pt)
  obtain k tags where pt: "pt = (k, tags)" by (cases pt)
  have nonblank: "strip raw \<noteq> []"
    using Some by (auto simp: split1_def)
  show ?thesis
  proof (cases "map_of ps k")
    case None
    with rd Some pt nonblank obtain q where q: "Patch_new bl tags = Inr q"
      and ps': "ps' = (if \<not> Patch_empty q then AList.update k q ps else ps)"
      by (auto simp: read_line_def Let_def split: sum.splits if_splits)
    from Patch_parse_Inr [OF q [unfolded Patch_new_def]]
    have qq: "added q = signed_tags CHR ''+'' bl tags" "removed q = signed_tags CHR ''-'' bl tags"
      by (simp_all add: Patch_init_def)
    show ?thesis
    proof (cases "k = pkg")
      case True
      with None Some pt qq ps' show ?thesis
        by (auto simp: entry_def line_signed_def line_tags_def update_conv' Patch_init_def
            Patch_empty_def)
    next
      case False
      with Some pt ps' show ?thesis
        by (auto simp: entry_def line_signed_def line_tags_def update_conv')
    qed
  next
    case (Some p)
    from rd \<open>split1 (strip raw) '': '' = Some pt\<close> pt nonblank Some
    obtain q where q: "Patch_parse bl p tags = Inr q" and ps': "ps' = AList.update k q ps"
      by (auto simp: read_line_def Let_def split: sum.splits)
    show ?thesis
    proof (cases "k = pkg")
      case True
      with Some \<open>split1 (strip raw) '': '' = Some pt\<close> pt ps' Patch_parse_Inr [OF q]
      show ?thesis
        by (simp add: entry_def line_signed_def line_tags_def update_conv')
    next
      case False
      with \<open>split1 (strip raw) '': '' = Some pt\<close> pt ps' show ?thesis
        by (auto simp: entry_def line_signed_def line_tags_def update_conv')
    qed
  qed
qed

lemma entry_read_fd:
  "PatchSet_read_fd bl ps fd = Inr ps' \<Longrightarrow>
   added (entry ps' pkg) = added (entry ps pkg) \<union> (\<Union>raw \<in> set fd. line_signed CHR ''+'' bl pkg raw)
   \<and> removed (entry ps' pkg)
       = removed (entry ps pkg) \<union> (\<Union>raw \<in> set fd. line_signed CHR ''-'' bl pkg raw)"
proof (induction fd arbitrary: ps)
  case Nil
  then show ?case by simp
next
  case (Cons raw fd)
  from Cons.prems obtain ps1 where 1: "read_line bl ps raw = Inr ps1"
    and 2: "PatchSet_read_fd bl ps1 fd = Inr ps'"
    by (auto split: sum.splits)
  from entry_read_line [OF 1, of pkg] Cons.IH [OF 2] show ?case
    by auto
qed

lemma distinct_read_line:
  "distinct (map fst ps) \<Longrightarrow> read_line bl ps raw = Inr ps' \<Longrightarrow> distinct (map fst ps')"
  by (auto simp: read_line_def Let_def distinct_update
      split: if_splits option.splits sum.splits)

lemma distinct_read_fd:
  "distinct (map fst ps) \<Longrightarrow> PatchSet_read_fd bl ps fd = Inr ps' \<Longrightarrow> distinct (map fst ps')"
proof (induction fd arbitrary: ps)
  case Nil
  then show ?case by simp
next
  case (Cons raw fd)
  from Cons.prems(2) obtain ps1 where 1: "read_line bl ps raw = Inr ps1"
    and 2: "PatchSet_read_fd bl ps1 fd = Inr ps'"
    by (auto split: sum.splits)
  from distinct_read_line [OF Cons.prems(1) 1] Cons.IH 2 show ?case
    by blast
qed

lemma entry_empty_iff:
  "no_empty ps \<Longrightarrow> map_of ps pkg = None \<longleftrightarrow> Patch_empty (entry ps pkg)"
proof (cases "map_of ps pkg")
  case None
  then show ?thesis
    by (simp add: entry_def Patch_init_def Patch_empty_def)
next
  case (Some p)
  assume "no_empty ps"
  with Some have "\<not> Patch_empty p"
    unfolding no_empty_def using map_of_list_all by fastforce
  with Some show ?thesis
    by (simp add: entry_def)
qed

text \<open>
  C10: when \<open>read_fd\<close> returns, a patch set that had no empty patch and one key for each
  package has them still, and what it holds for a package is what it held before
  together with the \<open>+\<close> tags, as added, and the \<open>-\<close> tags, as removed, of all lines of
  that package: plain unions, a tag can end in both sets. The package is a key exactly
  when these unions are not both empty. The lines \<open>pkg: +x\<close> and \<open>pkg: -x\<close> give one
  entry, with \<open>x\<close> added and \<open>x\<close> removed.
\<close>

theorem C10_lines_are_united:
  "(no_empty ps \<and> distinct (map fst ps) \<and> PatchSet_read_fd bl ps fd = Inr ps' \<longrightarrow>
      distinct (map fst ps')
      \<and> added (entry ps' pkg)
          = added (entry ps pkg) \<union> (\<Union>raw \<in> set fd. line_signed CHR ''+'' bl pkg raw)
      \<and> removed (entry ps' pkg)
          = removed (entry ps pkg) \<union> (\<Union>raw \<in> set fd. line_signed CHR ''-'' bl pkg raw)
      \<and> (map_of ps' pkg = None \<longleftrightarrow> Patch_empty (entry ps' pkg)))
   \<and> PatchSet_read_fd [] [] [''pkg: +x'', ''pkg: -x'']
       = Inr [(''pkg'', \<lparr>added = {''x''}, removed = {''x''}\<rparr>)]"
proof (intro conjI impI)
  assume h: "no_empty ps \<and> distinct (map fst ps) \<and> PatchSet_read_fd bl ps fd = Inr ps'"
  then have rd: "PatchSet_read_fd bl ps fd = Inr ps'" by simp
  from h show "distinct (map fst ps')"
    by (blast intro: distinct_read_fd)
  from entry_read_fd [OF rd, of pkg]
  show "added (entry ps' pkg)
          = added (entry ps pkg) \<union> (\<Union>raw \<in> set fd. line_signed CHR ''+'' bl pkg raw)"
    and "removed (entry ps' pkg)
          = removed (entry ps pkg) \<union> (\<Union>raw \<in> set fd. line_signed CHR ''-'' bl pkg raw)"
    by simp_all
  from h have "no_empty ps'"
    by (blast intro: no_empty_read_fd)
  then show "map_of ps' pkg = None \<longleftrightarrow> Patch_empty (entry ps' pkg)"
    by (rule entry_empty_iff)
next
  show "PatchSet_read_fd [] [] [''pkg: +x'', ''pkg: -x'']
       = Inr [(''pkg'', \<lparr>added = {''x''}, removed = {''x''}\<rparr>)]"
    by (simp add: read_line_def strip_def is_space_def split1_def Patch_new_def Patch_parse_def
        split_def parse_token_def Patch_init_def Patch_empty_def)
qed

theorem C10_lines_witness:
  "no_empty [] \<and> distinct (map fst ([] :: PatchSet))
   \<and> PatchSet_read_fd [] [] [''pkg: +x, +y'', ''other: +z'', ''pkg: -x'']
       = Inr [(''pkg'', \<lparr>added = {''x'', ''y''}, removed = {''x''}\<rparr>),
              (''other'', \<lparr>added = {''z''}, removed = {}\<rparr>)]
   \<and> (\<Union>raw \<in> set [''pkg: +x, +y'', ''other: +z'', ''pkg: -x''].
         line_signed CHR ''+'' [] ''pkg'' raw) = {''x'', ''y''}
   \<and> (\<Union>raw \<in> set [''pkg: +x, +y'', ''other: +z'', ''pkg: -x''].
         line_signed CHR ''-'' [] ''pkg'' raw) = {''x''}
   \<and> added (entry [(''pkg'', \<lparr>added = {''x'', ''y''}, removed = {''x''}\<rparr>),
                    (''other'', \<lparr>added = {''z''}, removed = {}\<rparr>)] ''pkg'')
       = added (entry [] ''pkg'') \<union> {''x'', ''y''}
   \<and> removed (entry [(''pkg'', \<lparr>added = {''x'', ''y''}, removed = {''x''}\<rparr>),
                      (''other'', \<lparr>added = {''z''}, removed = {}\<rparr>)] ''pkg'')
       = removed (entry [] ''pkg'') \<union> {''x''}"
proof -
  let ?fd = "[''pkg: +x, +y'', ''other: +z'', ''pkg: -x'']"
  let ?ps' = "[(''pkg'', \<lparr>added = {''x'', ''y''}, removed = {''x''}\<rparr>),
               (''other'', \<lparr>added = {''z''}, removed = {}\<rparr>)]"
  have h1: "no_empty []" "distinct (map fst ([] :: PatchSet))"
    by (simp_all add: no_empty_def)
  have h2: "PatchSet_read_fd [] [] ?fd = Inr ?ps'"
    by (simp add: read_line_def strip_def is_space_def split1_def Patch_new_def Patch_parse_def
        split_def parse_token_def Patch_init_def Patch_empty_def insert_commute)
  have u1: "(\<Union>raw \<in> set ?fd. line_signed CHR ''+'' [] ''pkg'' raw) = {''x'', ''y''}"
    by (simp add: line_signed_def line_tags_def strip_def is_space_def split1_def
        signed_tags_def split_def)
  have u2: "(\<Union>raw \<in> set ?fd. line_signed CHR ''-'' [] ''pkg'' raw) = {''x''}"
    by (simp add: line_signed_def line_tags_def strip_def is_space_def split1_def
        signed_tags_def split_def)
  from C10_lines_are_united [of "[]" "[]" ?fd ?ps' "''pkg''"] h1 h2
  have "added (entry ?ps' ''pkg'')
          = added (entry [] ''pkg'') \<union> (\<Union>raw \<in> set ?fd. line_signed CHR ''+'' [] ''pkg'' raw)"
    and "removed (entry ?ps' ''pkg'')
          = removed (entry [] ''pkg'') \<union> (\<Union>raw \<in> set ?fd. line_signed CHR ''-'' [] ''pkg'' raw)"
    by blast+
  with h1 h2 u1 u2 show ?thesis
    by simp
qed

end
